theory Spec2Isabelle
  imports Main "HOL-Library.Multiset" "HOL-Library.Sublist"
begin

section \<open>Data model (background.js)\<close>

text \<open>
  A deadline record as it is stored and exchanged in messages. The scrapers build records
  without \<open>done\<close> and \<open>notificationSent\<close> (and only the PrairieLearn scraper adds
  \<open>pastDue\<close>), so these three properties are optional: \<open>None\<close> is an absent
  (\<open>undefined\<close>) property. The field \<open>dueDate\<close> holds the instant, in milliseconds since
  the epoch, that \<open>new Date(item.dueDate)\<close> reads from the stored ISO string.
  \<open>id\<close> and \<open>done\<close> are written \<open>item_id\<close> and \<open>item_done\<close>.
\<close>

record item =
  item_id :: string
  title :: string
  dueDate :: int
  course :: string
  link :: string
  source :: string
  pastDue :: "bool option"
  item_done :: "bool option"
  notificationSent :: "bool option"

text \<open>JavaScript truthiness of an optional boolean property.\<close>

definition truthy :: "bool option \<Rightarrow> bool" where
  "truthy f = (f = Some True)"

record settings =
  notificationsEnabled :: bool
  notificationHours :: int

record storage =
  items :: "item list"
  settings :: settings

definition DEFAULT_SETTINGS :: settings where
  "DEFAULT_SETTINGS = \<lparr> notificationsEnabled = True, notificationHours = 24 \<rparr>"

definition DEFAULT_STORAGE :: storage where
  "DEFAULT_STORAGE = \<lparr> items = [], settings = DEFAULT_SETTINGS \<rparr>"

text \<open>
  The durable store holds one value under \<open>STORAGE_KEY\<close>, or nothing before the first
  write. Reads and writes of the store are taken to succeed.
\<close>

type_synonym store = "storage option"

definition getStorageData :: "store \<Rightarrow> storage" where
  "getStorageData st = (case st of None \<Rightarrow> DEFAULT_STORAGE | Some d \<Rightarrow> d)"

section \<open>Badge counter\<close>

definition msPerDay :: int where
  "msPerDay = 24 * 60 * 60 * 1000"

definition upcomingItems :: "int \<Rightarrow> storage \<Rightarrow> item list" where
  "upcomingItems now data =
     (let twentyFourHoursFromNow = now + (24 * 60 * 60 * 1000)
      in filter (\<lambda>item. dueDate item \<ge> now \<and> dueDate item \<le> twentyFourHoursFromNow)
           (items data))"

text \<open>\<open>updateBadge\<close> returns the count it derives; the badge text is empty when it is 0.\<close>

definition updateBadge :: "int \<Rightarrow> store \<Rightarrow> nat" where
  "updateBadge now st = length (upcomingItems now (getStorageData st))"

section \<open>Reconciliation (handleScrapeResult)\<close>

text \<open>
  A JavaScript \<open>Map\<close> keeps its keys in insertion order; \<open>set\<close> on a key that is present
  replaces the value in place, and on a new key appends.
\<close>

type_synonym itemMap = "(string \<times> item) list"

fun map_set :: "string \<Rightarrow> item \<Rightarrow> itemMap \<Rightarrow> itemMap" where
  "map_set k v [] = [(k, v)]"
| "map_set k v ((k', v') # m) =
     (if k' = k then (k, v) # m else (k', v') # map_set k v m)"

definition map_get :: "itemMap \<Rightarrow> string \<Rightarrow> item option" where
  "map_get m k = map_of m k"

definition map_values :: "itemMap \<Rightarrow> item list" where
  "map_values m = map snd m"

text \<open>
  The body of \<open>newItems.forEach\<close>: the two guarded assignments to \<open>newItem\<close>, then
  \<open>itemMap.set\<close>.
\<close>

definition preserveFlags :: "item option \<Rightarrow> item \<Rightarrow> item" where
  "preserveFlags existingItem newItem =
     (let newItem1 = (case existingItem of
                        Some e \<Rightarrow> if truthy (notificationSent e)
                                  then newItem\<lparr>notificationSent := notificationSent e\<rparr>
                                  else newItem
                      | None \<Rightarrow> newItem);
          newItem2 = (case existingItem of
                        Some e \<Rightarrow> if truthy (item_done e)
                                  then newItem1\<lparr>item_done := item_done e\<rparr>
                                  else newItem1
                      | None \<Rightarrow> newItem1)
      in newItem2)"

definition addNewItem :: "itemMap \<Rightarrow> item \<Rightarrow> itemMap" where
  "addNewItem itemMap newItem =
     (let existingItem = map_get itemMap (item_id newItem);
          newItem' = preserveFlags existingItem newItem
      in map_set (item_id newItem') newItem' itemMap)"

text \<open>
  The merge itself: the map is filled from the stored items, the new items are folded in,
  and the values are sorted by due date (\<open>Array.prototype.sort\<close> is stable).
\<close>

definition reconcile :: "item list \<Rightarrow> item list \<Rightarrow> item list" where
  "reconcile existing newItems =
     (let itemMap0 = foldl (\<lambda>m it. map_set (item_id it) it m) [] existing;
          itemMap1 = foldl addNewItem itemMap0 newItems;
          mergedItems = map_values itemMap1
      in sort_key dueDate mergedItems)"

text \<open>The handler writes the merged data and then recomputes the badge.\<close>

definition handleScrapeResult :: "int \<Rightarrow> item list \<Rightarrow> store \<Rightarrow> store \<times> nat" where
  "handleScrapeResult now newItems st =
     (let data = getStorageData st;
          updatedData = data\<lparr>items := reconcile (items data) newItems\<rparr>;
          st' = Some updatedData
      in (st', updateBadge now st'))"

section \<open>Point updates, settings, clear-all\<close>

definition toggleItemDone :: "string \<Rightarrow> bool \<Rightarrow> store \<Rightarrow> store" where
  "toggleItemDone mid mdone st =
     (let data = getStorageData st;
          items' = map (\<lambda>it. if item_id it = mid then it\<lparr>item_done := Some mdone\<rparr> else it)
                     (items data)
      in Some (data\<lparr>items := items'\<rparr>))"

text \<open>A settings message carries any subset of the two settings.\<close>

record settingsPatch =
  patchEnabled :: "bool option"
  patchHours :: "int option"

definition updateSettings :: "settingsPatch \<Rightarrow> store \<Rightarrow> store" where
  "updateSettings newSettings st =
     (let data = getStorageData st;
          s = settings data;
          s' = \<lparr> notificationsEnabled =
                   (case patchEnabled newSettings of Some b \<Rightarrow> b
                    | None \<Rightarrow> notificationsEnabled s),
                 notificationHours =
                   (case patchHours newSettings of Some h \<Rightarrow> h
                    | None \<Rightarrow> notificationHours s) \<rparr>
      in Some (data\<lparr>settings := s'\<rparr>))"

definition clearAllData :: "store \<Rightarrow> store" where
  "clearAllData st = Some DEFAULT_STORAGE"

section \<open>Notification scheduler (checkAndSendNotifications)\<close>

definition itemsToNotify :: "int \<Rightarrow> storage \<Rightarrow> item list" where
  "itemsToNotify now data =
     (let notificationWindow = notificationHours (settings data) * 60 * 60 * 1000;
          cutoffTime = now + notificationWindow
      in filter (\<lambda>item. dueDate item \<ge> now \<and> dueDate item \<le> cutoffTime \<and>
                        \<not> truthy (notificationSent item))
           (items data))"

fun findIndex :: "('a \<Rightarrow> bool) \<Rightarrow> 'a list \<Rightarrow> nat option" where
  "findIndex p [] = None"
| "findIndex p (x # xs) =
     (if p x then Some 0 else map_option Suc (findIndex p xs))"

text \<open>
  One iteration of the loop over the selected items. \<open>creates i\<close> tells whether
  \<open>browser.notifications.create\<close> resolves for the id \<open>i\<close>; when it rejects, control
  jumps to the \<open>catch\<close>, past the update of \<open>updatedItems\<close>. The second component logs
  every call of \<open>notifications.create\<close> with its outcome. The text of the message is
  not modelled.
\<close>

definition notifyItem ::
  "(string \<Rightarrow> bool) \<Rightarrow> item list \<times> (string \<times> bool) list \<Rightarrow> item
     \<Rightarrow> item list \<times> (string \<times> bool) list" where
  "notifyItem creates acc item =
     (let updatedItems = fst acc; calls = snd acc
      in if creates (item_id item)
         then (case findIndex (\<lambda>i. item_id i = item_id item) updatedItems of
                 Some itemIndex \<Rightarrow>
                   (updatedItems[itemIndex :=
                      (updatedItems ! itemIndex)\<lparr>notificationSent := Some True\<rparr>],
                    calls @ [(item_id item, True)])
               | None \<Rightarrow> (updatedItems, calls @ [(item_id item, True)]))
         else (updatedItems, calls @ [(item_id item, False)]))"

definition checkAndSendNotifications ::
  "(string \<Rightarrow> bool) \<Rightarrow> int \<Rightarrow> store \<Rightarrow> store \<times> (string \<times> bool) list" where
  "checkAndSendNotifications creates now st =
     (let data = getStorageData st
      in if \<not> notificationsEnabled (settings data) then (st, [])
         else
           (let selected = itemsToNotify now data;
                res = foldl (notifyItem creates) (items data, []) selected
            in if length selected > 0
               then (Some (data\<lparr>items := fst res\<rparr>), snd res)
               else (st, snd res)))"

section \<open>Retention sweep (cleanupOldItems)\<close>

definition cleanupOldItems :: "int \<Rightarrow> store \<Rightarrow> store \<times> nat option" where
  "cleanupOldItems now st =
     (let data = getStorageData st;
          thirtyDaysAgo = now - (30 * 24 * 60 * 60 * 1000);
          filteredItems = filter (\<lambda>item. dueDate item \<ge> thirtyDaysAgo) (items data)
      in if length filteredItems \<noteq> length (items data)
         then (let st' = Some (data\<lparr>items := filteredItems\<rparr>)
               in (st', Some (updateBadge now st')))
         else (st, None))"

section \<open>The background worker as a transition system\<close>

datatype event =
    ScrapeResult "item list"
  | ToggleItemDone string bool
  | UpdateSettings settingsPatch
  | ClearData
  | NotificationCheck "string \<Rightarrow> bool"
  | Cleanup

text \<open>
  One handler runs to completion per event; \<open>now\<close> is the clock reading of that run.
  The result is the next store and the calls of \<open>notifications.create\<close> made.
\<close>

fun step :: "int \<times> event \<Rightarrow> store \<Rightarrow> store \<times> (string \<times> bool) list" where
  "step (now, ScrapeResult newItems) st = (fst (handleScrapeResult now newItems st), [])"
| "step (now, ToggleItemDone mid mdone) st = (toggleItemDone mid mdone st, [])"
| "step (now, UpdateSettings p) st = (updateSettings p st, [])"
| "step (now, ClearData) st = (clearAllData st, [])"
| "step (now, NotificationCheck creates) st = checkAndSendNotifications creates now st"
| "step (now, Cleanup) st = (fst (cleanupOldItems now st), [])"

section \<open>The host: dates (ECMAScript Date)\<close>

text \<open>
  The parser builds its results with the built-in \<open>Date\<close>. Its arithmetic is written out
  here after the language definition (time values in milliseconds since the epoch, days
  counted from 1 January 1970, the proleptic Gregorian calendar). The local time zone of
  the host is a parameter: the offset that applies at a UTC instant and the offset that
  applies at a local time.
\<close>

definition msPerHour :: int where "msPerHour = 3600000"
definition msPerMinute :: int where "msPerMinute = 60000"
definition msPerSecond :: int where "msPerSecond = 1000"

definition Day :: "int \<Rightarrow> int" where
  "Day t = t div msPerDay"

definition TimeWithinDay :: "int \<Rightarrow> int" where
  "TimeWithinDay t = t mod msPerDay"

definition DaysInYear :: "int \<Rightarrow> int" where
  "DaysInYear y =
     (if y mod 4 \<noteq> 0 then 365
      else if y mod 100 \<noteq> 0 then 366
      else if y mod 400 \<noteq> 0 then 365
      else 366)"

definition DayFromYear :: "int \<Rightarrow> int" where
  "DayFromYear y =
     365 * (y - 1970) + (y - 1969) div 4 - (y - 1901) div 100 + (y - 1601) div 400"

text \<open>
  \<open>YearFromTime t\<close> is the largest year that starts at or before \<open>t\<close>: the search walks
  from a first guess to the year whose first day is at or before the day and whose
  successor starts after it.
\<close>

function yearSearch :: "int \<Rightarrow> int \<Rightarrow> int" where
  "yearSearch y d =
     (if d < DayFromYear y then yearSearch (y - 1) d
      else if DayFromYear (y + 1) \<le> d then yearSearch (y + 1) d
      else y)"
  by pat_completeness auto
termination
proof (relation "measure (\<lambda>(y, d). if d < DayFromYear y then nat (DayFromYear y - d)
                                  else if DayFromYear (y + 1) \<le> d
                                       then nat (d - DayFromYear (y + 1) + 1)
                                       else 0)", goal_cases)
  case 1
  show ?case by simp
next
  case (2 y d)
  have "DayFromYear (y - 1) < DayFromYear (y - 1 + 1)"
  proof -
    define z where "z = y - 1"
    define a where "a = (z - 1969) div 4"
    define a' where "a' = (z - 1968) div 4"
    define b where "b = (z - 1901) div 100"
    define b' where "b' = (z - 1900) div 100"
    define c where "c = (z - 1601) div 400"
    define c' where "c' = (z - 1600) div 400"
    have 1: "a \<le> a'" unfolding a_def a'_def by (rule zdiv_mono1) simp_all
    have "(z - 1901 + 1 * 100) div 100 = (z - 1901) div 100 + 1"
      by (subst div_mult_self1) simp_all
    moreover have "(z - 1900) div 100 \<le> (z - 1901 + 1 * 100) div 100"
      by (rule zdiv_mono1) simp_all
    ultimately have 2: "b' \<le> b + 1" unfolding b_def b'_def by (simp only:)
    have 3: "c \<le> c'" unfolding c_def c'_def by (rule zdiv_mono1) simp_all
    have l: "DayFromYear z = 365 * (z - 1970) + a - b + c"
      by (simp only: DayFromYear_def a_def b_def c_def)
    have "z + 1 - 1970 = z - 1969" "z + 1 - 1969 = z - 1968" "z + 1 - 1901 = z - 1900"
      "z + 1 - 1601 = z - 1600" by simp_all
    then have r: "DayFromYear (z + 1) = 365 * (z - 1969) + a' - b' + c'"
      by (simp only: DayFromYear_def a'_def b'_def c'_def)
    show ?thesis unfolding z_def [symmetric] l r using 1 2 3 by simp
  qed
  then have "DayFromYear (y - 1) < DayFromYear y" by simp
  with 2 show ?case by simp
next
  case (3 y d)
  have "DayFromYear (y + 1) < DayFromYear (y + 1 + 1)"
  proof -
    define z where "z = y + 1"
    define a where "a = (z - 1969) div 4"
    define a' where "a' = (z - 1968) div 4"
    define b where "b = (z - 1901) div 100"
    define b' where "b' = (z - 1900) div 100"
    define c where "c = (z - 1601) div 400"
    define c' where "c' = (z - 1600) div 400"
    have 1: "a \<le> a'" unfolding a_def a'_def by (rule zdiv_mono1) simp_all
    have "(z - 1901 + 1 * 100) div 100 = (z - 1901) div 100 + 1"
      by (subst div_mult_self1) simp_all
    moreover have "(z - 1900) div 100 \<le> (z - 1901 + 1 * 100) div 100"
      by (rule zdiv_mono1) simp_all
    ultimately have 2: "b' \<le> b + 1" unfolding b_def b'_def by (simp only:)
    have 3: "c \<le> c'" unfolding c_def c'_def by (rule zdiv_mono1) simp_all
    have l: "DayFromYear z = 365 * (z - 1970) + a - b + c"
      by (simp only: DayFromYear_def a_def b_def c_def)
    have "z + 1 - 1970 = z - 1969" "z + 1 - 1969 = z - 1968" "z + 1 - 1901 = z - 1900"
      "z + 1 - 1601 = z - 1600" by simp_all
    then have r: "DayFromYear (z + 1) = 365 * (z - 1969) + a' - b' + c'"
      by (simp only: DayFromYear_def a'_def b'_def c'_def)
    show ?thesis unfolding z_def [symmetric] l r using 1 2 3 by simp
  qed
  with 3 show ?case by simp
qed

definition YearFromDay :: "int \<Rightarrow> int" where
  "YearFromDay d = yearSearch (1970 + d div 365) d"

definition YearFromTime :: "int \<Rightarrow> int" where
  "YearFromTime t = YearFromDay (Day t)"

definition InLeapYear :: "int \<Rightarrow> bool" where
  "InLeapYear t = (DaysInYear (YearFromTime t) = 366)"

definition DayWithinYear :: "int \<Rightarrow> int" where
  "DayWithinYear t = Day t - DayFromYear (YearFromTime t)"

text \<open>The day of the year on which month \<open>m\<close> (0 to 11) starts; \<open>l\<close> is 1 in a leap year.\<close>

definition monthStart :: "int \<Rightarrow> int \<Rightarrow> int" where
  "monthStart m l =
     (if m = 0 then 0 else if m = 1 then 31 else if m = 2 then 59 + l
      else if m = 3 then 90 + l else if m = 4 then 120 + l else if m = 5 then 151 + l
      else if m = 6 then 181 + l else if m = 7 then 212 + l else if m = 8 then 243 + l
      else if m = 9 then 273 + l else if m = 10 then 304 + l else 334 + l)"

definition monthOfDay :: "int \<Rightarrow> int \<Rightarrow> int" where
  "monthOfDay dwy l =
     (if dwy < 31 then 0 else if dwy < 59 + l then 1 else if dwy < 90 + l then 2
      else if dwy < 120 + l then 3 else if dwy < 151 + l then 4 else if dwy < 181 + l then 5
      else if dwy < 212 + l then 6 else if dwy < 243 + l then 7 else if dwy < 273 + l then 8
      else if dwy < 304 + l then 9 else if dwy < 334 + l then 10 else 11)"

definition leapDays :: "int \<Rightarrow> int" where
  "leapDays y = (if DaysInYear y = 366 then 1 else 0)"

definition MonthFromTime :: "int \<Rightarrow> int" where
  "MonthFromTime t = monthOfDay (DayWithinYear t) (leapDays (YearFromTime t))"

definition DateFromTime :: "int \<Rightarrow> int" where
  "DateFromTime t =
     DayWithinYear t - monthStart (MonthFromTime t) (leapDays (YearFromTime t)) + 1"

definition MakeTime :: "int \<Rightarrow> int \<Rightarrow> int \<Rightarrow> int \<Rightarrow> int" where
  "MakeTime hour minute sec ms =
     hour * msPerHour + minute * msPerMinute + sec * msPerSecond + ms"

definition MakeDay :: "int \<Rightarrow> int \<Rightarrow> int \<Rightarrow> int" where
  "MakeDay year month date =
     (let ym = year + month div 12; mn = month mod 12
      in DayFromYear ym + monthStart mn (leapDays ym) + date - 1)"

definition MakeDate :: "int \<Rightarrow> int \<Rightarrow> int" where
  "MakeDate day time = day * msPerDay + time"

text \<open>A \<open>Date\<close> object holds a time value, or \<open>NaN\<close> (\<open>None\<close>): an invalid date.\<close>

type_synonym date = "int option"

definition TimeClip :: "int \<Rightarrow> date" where
  "TimeClip t = (if \<bar>t\<bar> > 8640000000000000 then None else Some t)"

record timezone =
  offsetAtUTC :: "int \<Rightarrow> int"
  offsetAtLocal :: "int \<Rightarrow> int"

definition LocalTime :: "timezone \<Rightarrow> int \<Rightarrow> int" where
  "LocalTime tz t = t + offsetAtUTC tz t"

definition UTC :: "timezone \<Rightarrow> int \<Rightarrow> int" where
  "UTC tz t = t - offsetAtLocal tz t"

text \<open>
  \<open>new Date(year, month, day, hours, minutes, seconds)\<close>, in local time; a year from 0
  to 99 stands for 1900 + year.
\<close>

definition newDate :: "timezone \<Rightarrow> int \<Rightarrow> int \<Rightarrow> int \<Rightarrow> int \<Rightarrow> int \<Rightarrow> int \<Rightarrow> date" where
  "newDate tz year month day hours minutes seconds =
     (let yr = (if 0 \<le> year \<and> year \<le> 99 then 1900 + year else year);
          finalDate = MakeDate (MakeDay yr month day) (MakeTime hours minutes seconds 0)
      in TimeClip (UTC tz finalDate))"

definition getFullYear :: "timezone \<Rightarrow> int \<Rightarrow> int" where
  "getFullYear tz t = YearFromTime (LocalTime tz t)"

definition getMonth :: "timezone \<Rightarrow> int \<Rightarrow> int" where
  "getMonth tz t = MonthFromTime (LocalTime tz t)"

definition getDate :: "timezone \<Rightarrow> int \<Rightarrow> int" where
  "getDate tz t = DateFromTime (LocalTime tz t)"

definition setFullYear :: "timezone \<Rightarrow> date \<Rightarrow> int \<Rightarrow> date" where
  "setFullYear tz d year =
     (let t = (case d of None \<Rightarrow> 0 | Some tv \<Rightarrow> LocalTime tz tv);
          newDay = MakeDay year (MonthFromTime t) (DateFromTime t)
      in TimeClip (UTC tz (MakeDate newDay (TimeWithinDay t))))"

text \<open>\<open>date.setHours(23, 59, 59, 999)\<close>.\<close>

definition setHours :: "timezone \<Rightarrow> date \<Rightarrow> int \<Rightarrow> int \<Rightarrow> int \<Rightarrow> int \<Rightarrow> date" where
  "setHours tz d hour minute sec ms =
     (case d of
        None \<Rightarrow> None
      | Some tv \<Rightarrow>
          (let t = LocalTime tz tv
           in TimeClip (UTC tz (MakeDate (Day t) (MakeTime hour minute sec ms)))))"

text \<open>\<open>date < now\<close>: a comparison with \<open>NaN\<close> is false.\<close>

definition dateBefore :: "date \<Rightarrow> int \<Rightarrow> bool" where
  "dateBefore d now = (case d of None \<Rightarrow> False | Some t \<Rightarrow> t < now)"

subsection \<open>toISOString\<close>

definition digitChar :: "int \<Rightarrow> char" where
  "digitChar d = char_of (48 + d)"

text \<open>The decimal digits of \<open>k\<close> (not negative), padded with zeros to the width \<open>w\<close>.\<close>

definition pad :: "nat \<Rightarrow> int \<Rightarrow> string" where
  "pad w k = map (\<lambda>i. digitChar ((k div 10 ^ i) mod 10)) (rev [0..<w])"

datatype jsError = RangeError

definition isoYear :: "int \<Rightarrow> string" where
  "isoYear y =
     (if 0 \<le> y \<and> y \<le> 9999 then pad 4 y
      else if y < 0 then CHR ''-'' # pad 6 (- y)
      else CHR ''+'' # pad 6 y)"

definition toISOString :: "date \<Rightarrow> jsError + string" where
  "toISOString d =
     (case d of
        None \<Rightarrow> Inl RangeError
      | Some t \<Rightarrow>
          Inr (isoYear (YearFromTime t) @ ''-'' @ pad 2 (MonthFromTime t + 1) @ ''-'' @
               pad 2 (DateFromTime t) @ ''T'' @
               pad 2 (TimeWithinDay t div msPerHour) @ '':'' @
               pad 2 ((TimeWithinDay t div msPerMinute) mod 60) @ '':'' @
               pad 2 ((TimeWithinDay t div msPerSecond) mod 60) @ ''.'' @
               pad 3 (TimeWithinDay t mod msPerSecond) @ ''Z''))"

section \<open>The host: strings and regular expressions\<close>

text \<open>
  A string is a list of code units; the model covers the code units below 256 (Latin-1),
  which is where the letters, digits, punctuation and the no-break space of the scraped
  fragments lie.
\<close>

definition isDigit :: "char \<Rightarrow> bool" where
  "isDigit c = (48 \<le> (of_char c :: nat) \<and> (of_char c :: nat) \<le> 57)"

definition isUpper :: "char \<Rightarrow> bool" where
  "isUpper c = (65 \<le> (of_char c :: nat) \<and> (of_char c :: nat) \<le> 90)"

definition isLower :: "char \<Rightarrow> bool" where
  "isLower c = (97 \<le> (of_char c :: nat) \<and> (of_char c :: nat) \<le> 122)"

text \<open>\<open>\w\<close> is \<open>[A-Za-z0-9_]\<close>.\<close>

definition isWordChar :: "char \<Rightarrow> bool" where
  "isWordChar c = (isDigit c \<or> isUpper c \<or> isLower c \<or> c = CHR ''_'')"

text \<open>
  \<open>\s\<close>, and what \<open>trim\<close> removes: tab, line feed, vertical tab, form feed, carriage
  return, space and no-break space.
\<close>

definition isSpace :: "char \<Rightarrow> bool" where
  "isSpace c = ((of_char c :: nat) \<in> {9, 10, 11, 12, 13, 32, 160})"

definition lowerChar :: "char \<Rightarrow> char" where
  "lowerChar c =
     (let n = (of_char c :: nat)
      in if isUpper c \<or> (192 \<le> n \<and> n \<le> 222 \<and> n \<noteq> 215) then char_of (n + 32) else c)"

definition toLowerCase :: "string \<Rightarrow> string" where
  "toLowerCase s = map lowerChar s"

definition trim :: "string \<Rightarrow> string" where
  "trim s = rev (dropWhile isSpace (rev (dropWhile isSpace s)))"

definition strIncludes :: "string \<Rightarrow> string \<Rightarrow> bool" where
  "strIncludes s searchString = sublist searchString s"

text \<open>\<open>parseInt\<close> on a capture of \<open>\d\<close>s: the decimal value of the digits.\<close>

definition parseInt :: "string \<Rightarrow> int" where
  "parseInt s = foldl (\<lambda>n c. 10 * n + (int (of_char c) - 48)) 0 (takeWhile isDigit s)"

subsection \<open>A backtracking matcher\<close>

text \<open>
  The regular expressions of the parser use character classes, literals, greedy
  repetition of a class, alternation, capture groups, one optional group and the word
  boundary. The matcher follows the language definition: a pattern is matched against
  the rest of the input with a continuation for what follows; a greedy repetition tries
  the longest run first and gives characters back one at a time; an alternation tries
  its left side first. The continuation receives the code unit before the position (for
  \<open>\b\<close>), the rest of the input and the captures.
\<close>

datatype cclass = Digit | WordChar | Space | Lit char

fun inClass :: "bool \<Rightarrow> cclass \<Rightarrow> char \<Rightarrow> bool" where
  "inClass ic Digit c = isDigit c"
| "inClass ic WordChar c = isWordChar c"
| "inClass ic Space c = isSpace c"
| "inClass ic (Lit l) c = (if ic then lowerChar c = lowerChar l else c = l)"

datatype regex =
    One cclass
  | Rep nat "nat option" cclass
  | Cat regex regex
  | Alt regex regex
  | Group nat regex
  | Opt regex
  | Eps
  | WordBoundary

type_synonym captures = "(nat \<times> string) list"

type_synonym 'a cont = "char option \<Rightarrow> string \<Rightarrow> captures \<Rightarrow> 'a option"

text \<open>The longest run the repetition may take: at most \<open>hi\<close> characters of the class.\<close>

definition maxRun :: "bool \<Rightarrow> cclass \<Rightarrow> nat option \<Rightarrow> string \<Rightarrow> nat" where
  "maxRun ic c hi s =
     (let r = length (takeWhile (inClass ic c) s)
      in case hi of None \<Rightarrow> r | Some h \<Rightarrow> min h r)"

text \<open>Try to continue after \<open>n\<close> characters, then after \<open>n - 1\<close>, down to \<open>lo\<close>.\<close>

primrec tryRep :: "'a cont \<Rightarrow> char option \<Rightarrow> string \<Rightarrow> captures \<Rightarrow> nat \<Rightarrow> nat \<Rightarrow> 'a option" where
  "tryRep k p s cs lo 0 = (if lo = 0 then k p s cs else None)"
| "tryRep k p s cs lo (Suc n) =
     (if Suc n < lo then None
      else (case k (Some (s ! n)) (drop (Suc n) s) cs of
              Some a \<Rightarrow> Some a
            | None \<Rightarrow> tryRep k p s cs lo n))"

definition wordBefore :: "char option \<Rightarrow> bool" where
  "wordBefore p = (case p of None \<Rightarrow> False | Some c \<Rightarrow> isWordChar c)"

definition wordAfter :: "string \<Rightarrow> bool" where
  "wordAfter s = (case s of [] \<Rightarrow> False | c # cs \<Rightarrow> isWordChar c)"

fun matchRe :: "bool \<Rightarrow> regex \<Rightarrow> 'a cont \<Rightarrow> 'a cont" where
  "matchRe ic (One c) k =
     (\<lambda>p s cs. case s of [] \<Rightarrow> None
        | x # xs \<Rightarrow> if inClass ic c x then k (Some x) xs cs else None)"
| "matchRe ic (Rep lo hi c) k = (\<lambda>p s cs. tryRep k p s cs lo (maxRun ic c hi s))"
| "matchRe ic (Cat r1 r2) k = matchRe ic r1 (matchRe ic r2 k)"
| "matchRe ic (Alt r1 r2) k =
     (\<lambda>p s cs. case matchRe ic r1 k p s cs of
        Some a \<Rightarrow> Some a
      | None \<Rightarrow> matchRe ic r2 k p s cs)"
| "matchRe ic (Group i r) k =
     (\<lambda>p s cs.
        matchRe ic r (\<lambda>p' s' cs'. k p' s' ((i, take (length s - length s') s) # cs')) p s cs)"
| "matchRe ic (Opt r) k =
     (\<lambda>p s cs. case matchRe ic r k p s cs of
        Some a \<Rightarrow> Some a
      | None \<Rightarrow> k p s cs)"
| "matchRe ic Eps k = k"
| "matchRe ic WordBoundary k =
     (\<lambda>p s cs. if wordBefore p \<noteq> wordAfter s then k p s cs else None)"

text \<open>A match at the current position: how many characters it takes, and the captures.\<close>

definition matchAt :: "bool \<Rightarrow> regex \<Rightarrow> char option \<Rightarrow> string \<Rightarrow> (nat \<times> captures) option" where
  "matchAt ic r p s = matchRe ic r (\<lambda>p' s' cs'. Some (length s - length s', cs')) p s []"

text \<open>
  \<open>exec\<close> without the global flag: the leftmost position with a match. The result is the
  index, the length of the match and the captures.
\<close>

fun execFrom :: "bool \<Rightarrow> regex \<Rightarrow> char option \<Rightarrow> string \<Rightarrow> (nat \<times> nat \<times> captures) option" where
  "execFrom ic r p [] =
     (case matchAt ic r p [] of None \<Rightarrow> None | Some (n, cs) \<Rightarrow> Some (0, n, cs))"
| "execFrom ic r p (x # xs) =
     (case matchAt ic r p (x # xs) of
        Some (n, cs) \<Rightarrow> Some (0, n, cs)
      | None \<Rightarrow>
          (case execFrom ic r (Some x) xs of
             None \<Rightarrow> None
           | Some (i, n, cs) \<Rightarrow> Some (Suc i, n, cs)))"

text \<open>\<open>str.match(re)\<close> for a regular expression without the global flag.\<close>

definition strMatch :: "bool \<Rightarrow> regex \<Rightarrow> string \<Rightarrow> captures option" where
  "strMatch ic r s = map_option (\<lambda>(i, n, cs). cs) (execFrom ic r None s)"

text \<open>\<open>match[i]\<close>: \<open>None\<close> is \<open>undefined\<close>.\<close>

definition grp :: "captures \<Rightarrow> nat \<Rightarrow> string option" where
  "grp m i = map_of m i"

text \<open>Truthiness of \<open>match[i]\<close>: defined and not the empty string.\<close>

definition truthyStr :: "string option \<Rightarrow> bool" where
  "truthyStr v = (case v of None \<Rightarrow> False | Some s \<Rightarrow> s \<noteq> [])"

definition strOf :: "string option \<Rightarrow> string" where
  "strOf v = (case v of None \<Rightarrow> [] | Some s \<Rightarrow> s)"

text \<open>\<open>str.replace(re, rep)\<close> without the global flag replaces the leftmost match.\<close>

definition replaceFirst :: "bool \<Rightarrow> regex \<Rightarrow> string \<Rightarrow> string \<Rightarrow> string" where
  "replaceFirst ic r rep s =
     (case execFrom ic r None s of
        None \<Rightarrow> s
      | Some (i, n, cs) \<Rightarrow> take i s @ rep @ drop (i + n) s)"

text \<open>
  With the global flag every match is replaced, scanning from the left; the scan resumes
  after a match, and one character further when the match is empty.
\<close>

function replaceFrom :: "bool \<Rightarrow> regex \<Rightarrow> string \<Rightarrow> char option \<Rightarrow> string \<Rightarrow> string" where
  "replaceFrom ic r rep p [] =
     (case matchAt ic r p [] of None \<Rightarrow> [] | Some (n, cs) \<Rightarrow> rep)"
| "replaceFrom ic r rep p (x # xs) =
     (case matchAt ic r p (x # xs) of
        None \<Rightarrow> x # replaceFrom ic r rep (Some x) xs
      | Some (n, cs) \<Rightarrow>
          if n = 0 then rep @ x # replaceFrom ic r rep (Some x) xs
          else rep @ replaceFrom ic r rep (Some ((x # xs) ! (n - 1))) (drop n (x # xs)))"
  by pat_completeness auto
termination
  by (relation "measure (\<lambda>(ic, r, rep, p, s). length s)") auto

definition replaceAll :: "bool \<Rightarrow> regex \<Rightarrow> string \<Rightarrow> string \<Rightarrow> string" where
  "replaceAll ic r rep s = replaceFrom ic r rep None s"

text \<open>A literal word as a pattern.\<close>

fun lit :: "string \<Rightarrow> regex" where
  "lit [] = Eps"
| "lit [c] = One (Lit c)"
| "lit (c # cs) = Cat (One (Lit c)) (lit cs)"

text \<open>
  The two tests the parser makes on the source text of a format:
  \<open>format.source.includes('\\w+')\<close> and \<open>format.source.includes('(\\d{4})')\<close>.
\<close>

fun sourceHasWordPlus :: "regex \<Rightarrow> bool" where
  "sourceHasWordPlus (Rep lo hi c) = (lo = 1 \<and> hi = None \<and> c = WordChar)"
| "sourceHasWordPlus (Cat r1 r2) = (sourceHasWordPlus r1 \<or> sourceHasWordPlus r2)"
| "sourceHasWordPlus (Alt r1 r2) = (sourceHasWordPlus r1 \<or> sourceHasWordPlus r2)"
| "sourceHasWordPlus (Group i r) = sourceHasWordPlus r"
| "sourceHasWordPlus (Opt r) = sourceHasWordPlus r"
| "sourceHasWordPlus r = False"

fun sourceHasYear4 :: "regex \<Rightarrow> bool" where
  "sourceHasYear4 (Group i (Rep lo hi c)) = (lo = 4 \<and> hi = Some 4 \<and> c = Digit)"
| "sourceHasYear4 (Group i r) = sourceHasYear4 r"
| "sourceHasYear4 (Cat r1 r2) = (sourceHasYear4 r1 \<or> sourceHasYear4 r2)"
| "sourceHasYear4 (Alt r1 r2) = (sourceHasYear4 r1 \<or> sourceHasYear4 r2)"
| "sourceHasYear4 (Opt r) = sourceHasYear4 r"
| "sourceHasYear4 r = False"

section \<open>The date normalizer (lib/date-parser.js)\<close>

text \<open>The argument of \<open>parseDateString\<close> is any JavaScript value.\<close>

datatype jsval =
    JUndefined
  | JNull
  | JBoolean bool
  | JNumber int
  | JString string
  | JObject

text \<open>The patterns of the normalizer, in the order of the source.\<close>

definition reDue :: regex where
  "reDue = Cat (lit ''due'') (Rep 0 None Space)"

definition reUntil :: regex where
  "reUntil = Cat (lit ''until'') (Rep 0 None Space)"

definition reAt :: regex where
  "reAt = One (Lit CHR ''@'')"

definition reSpaces :: regex where
  "reSpaces = Rep 1 None Space"

text \<open>\<open>/(\d{1,2}):(\d{2})\s*(am|pm)/i\<close>\<close>

definition reTime :: regex where
  "reTime =
     Cat (Group 1 (Rep 1 (Some 2) Digit))
       (Cat (One (Lit CHR '':''))
         (Cat (Group 2 (Rep 2 (Some 2) Digit))
           (Cat (Rep 0 None Space) (Group 3 (Alt (lit ''am'') (lit ''pm''))))))"

text \<open>\<open>/\d{1,2}:\d{2}\s*(am|pm)/i\<close>\<close>

definition reTimeStrip :: regex where
  "reTimeStrip =
     Cat (Rep 1 (Some 2) Digit)
       (Cat (One (Lit CHR '':''))
         (Cat (Rep 2 (Some 2) Digit)
           (Cat (Rep 0 None Space) (Group 1 (Alt (lit ''am'') (lit ''pm''))))))"

text \<open>\<open>/(\w+),\s*(\w+)\s+(\d{1,2})/i\<close>\<close>

definition reWeekdayMonthDay :: regex where
  "reWeekdayMonthDay =
     Cat (Group 1 (Rep 1 None WordChar))
       (Cat (One (Lit CHR '',''))
         (Cat (Rep 0 None Space)
           (Cat (Group 2 (Rep 1 None WordChar))
             (Cat (Rep 1 None Space) (Group 3 (Rep 1 (Some 2) Digit))))))"

text \<open>\<open>/(\w+)\s+(\d{1,2})/i\<close>\<close>

definition reMonthDay :: regex where
  "reMonthDay =
     Cat (Group 1 (Rep 1 None WordChar))
       (Cat (Rep 1 None Space) (Group 2 (Rep 1 (Some 2) Digit)))"

text \<open>\<open>/(\d{1,2})\/(\d{1,2})(?:\/(\d{2,4}))?/\<close>\<close>

definition reSlash :: regex where
  "reSlash =
     Cat (Group 1 (Rep 1 (Some 2) Digit))
       (Cat (One (Lit CHR ''/''))
         (Cat (Group 2 (Rep 1 (Some 2) Digit))
           (Opt (Cat (One (Lit CHR ''/'')) (Group 3 (Rep 2 (Some 4) Digit))))))"

text \<open>\<open>/(\d{4})-(\d{1,2})-(\d{1,2})/\<close>\<close>

definition reIso :: regex where
  "reIso =
     Cat (Group 1 (Rep 4 (Some 4) Digit))
       (Cat (One (Lit CHR ''-''))
         (Cat (Group 2 (Rep 1 (Some 2) Digit))
           (Cat (One (Lit CHR ''-'')) (Group 3 (Rep 1 (Some 2) Digit)))))"

text \<open>Each format with its \<open>i\<close> flag.\<close>

definition dateFormats :: "(bool \<times> regex) list" where
  "dateFormats =
     [(True, reWeekdayMonthDay), (True, reMonthDay), (False, reSlash), (False, reIso)]"

text \<open>
  The month table. A lookup of a name that is not in the table gives \<open>undefined\<close>; the
  two inherited property names that consist of lower-case word characters
  (\<open>constructor\<close>, \<open>__proto__\<close>) give a value that is not a number, hence an invalid
  date, which the parser discards exactly as it discards a missing month.
\<close>

definition monthNames :: "string \<Rightarrow> int option" where
  "monthNames = map_of
     [(''jan'', 0), (''january'', 0), (''feb'', 1), (''february'', 1), (''mar'', 2),
      (''march'', 2), (''apr'', 3), (''april'', 3), (''may'', 4), (''jun'', 5),
      (''june'', 5), (''jul'', 6), (''july'', 6), (''aug'', 7), (''august'', 7),
      (''sep'', 8), (''september'', 8), (''oct'', 9), (''october'', 9), (''nov'', 10),
      (''november'', 10), (''dec'', 11), (''december'', 11)]"

text \<open>Step 1: the cleaned string.\<close>

definition cleanDateStr :: "string \<Rightarrow> string" where
  "cleanDateStr dateStr =
     trim (replaceAll False reSpaces '' ''
       (replaceAll False reAt '' ''
         (replaceAll False reUntil []
           (replaceAll False reDue [] (toLowerCase dateStr)))))"

text \<open>
  Step 3: the clock time. The result is \<open>timeMatch\<close> (was there a match), \<open>hours\<close>,
  \<open>minutes\<close> and the string with the time removed.
\<close>

definition extractTime :: "string \<Rightarrow> bool \<times> int \<times> int \<times> string" where
  "extractTime cleanStr =
     (case strMatch True reTime cleanStr of
        None \<Rightarrow> (False, 23, 59, cleanStr)
      | Some timeMatch \<Rightarrow>
          (let hours = parseInt (strOf (grp timeMatch 1));
               minutes = parseInt (strOf (grp timeMatch 2));
               isPM = (toLowerCase (strOf (grp timeMatch 3)) = ''pm'');
               hours1 = (if isPM \<and> hours \<noteq> 12 then hours + 12 else hours);
               hours2 = (if \<not> isPM \<and> hours1 = 12 then 0 else hours1)
           in (True, hours2, minutes, trim (replaceFirst True reTimeStrip [] cleanStr))))"

text \<open>
  A date in the reference year, rolled forward by \<open>date.setFullYear(year + 1)\<close> when it
  lies before \<open>now\<close>.
\<close>

definition inReferenceYear :: "timezone \<Rightarrow> int \<Rightarrow> int \<Rightarrow> int \<Rightarrow> int \<Rightarrow> int \<Rightarrow> date" where
  "inReferenceYear tz now month day hours minutes =
     (let year = getFullYear tz now;
          date = newDate tz year month day hours minutes 0
      in if dateBefore date now then setFullYear tz date (year + 1) else date)"

text \<open>
  Step 4, the body of the loop for one format that matched: the value of \<open>date\<close> at the
  end of the \<open>try\<close> block. \<open>None\<close> is a \<open>date\<close> that was never assigned.
\<close>

definition formatDate ::
  "timezone \<Rightarrow> int \<Rightarrow> int \<Rightarrow> int \<Rightarrow> regex \<Rightarrow> captures \<Rightarrow> date option" where
  "formatDate tz now hours minutes format m =
     (if sourceHasWordPlus format then
        (if truthyStr (grp m 2) \<and> truthyStr (grp m 3) then
           (let monthName = toLowerCase (strOf (grp m 2));
                day = parseInt (strOf (grp m 3))
            in case monthNames monthName of
                 Some month \<Rightarrow> Some (inReferenceYear tz now month day hours minutes)
               | None \<Rightarrow> None)
         else if truthyStr (grp m 1) \<and> truthyStr (grp m 2) then
           (let monthName = toLowerCase (strOf (grp m 1));
                day = parseInt (strOf (grp m 2))
            in case monthNames monthName of
                 Some month \<Rightarrow> Some (inReferenceYear tz now month day hours minutes)
               | None \<Rightarrow> None)
         else None)
      else if sourceHasYear4 format then
        (let year = parseInt (strOf (grp m 1));
             month = parseInt (strOf (grp m 2)) - 1;
             day = parseInt (strOf (grp m 3))
         in Some (newDate tz year month day hours minutes 0))
      else
        (let month = parseInt (strOf (grp m 1)) - 1;
             day = parseInt (strOf (grp m 2));
             year0 = (if truthyStr (grp m 3) then parseInt (strOf (grp m 3))
                      else getFullYear tz now);
             year = (if year0 < 100 then year0 + (if year0 < 50 then 2000 else 1900)
                     else year0);
             date = newDate tz year month day hours minutes 0
         in Some (if \<not> truthyStr (grp m 3) \<and> dateBefore date now
                  then setFullYear tz date (year + 1) else date)))"

text \<open>
  The loop over the formats: the first format that matches and yields a valid date
  returns its ISO string. An exception inside the \<open>try\<close> block is caught and the loop goes
  on.
\<close>

fun tryFormats ::
  "timezone \<Rightarrow> int \<Rightarrow> int \<Rightarrow> int \<Rightarrow> string \<Rightarrow> (bool \<times> regex) list \<Rightarrow> string option" where
  "tryFormats tz now hours minutes cleanStr [] = None"
| "tryFormats tz now hours minutes cleanStr ((ic, format) # formats) =
     (case strMatch ic format cleanStr of
        None \<Rightarrow> tryFormats tz now hours minutes cleanStr formats
      | Some m \<Rightarrow>
          (case formatDate tz now hours minutes format m of
             Some (Some t) \<Rightarrow>
               (case toISOString (Some t) of
                  Inr isoStr \<Rightarrow> Some isoStr
                | Inl e \<Rightarrow> tryFormats tz now hours minutes cleanStr formats)
           | _ \<Rightarrow> tryFormats tz now hours minutes cleanStr formats))"

text \<open>
  Step 5: \<open>new Date(cleanStr)\<close>. How the host reads a string that is not in the ISO
  format is left to the host, so this parse is a parameter. An exception in the \<open>try\<close>
  block is caught, and the function goes on to return \<open>null\<close>.
\<close>

definition nativeFallback ::
  "timezone \<Rightarrow> (string \<Rightarrow> date) \<Rightarrow> bool \<Rightarrow> string \<Rightarrow> string option" where
  "nativeFallback tz nativeParse timeMatch cleanStr =
     (let date = nativeParse cleanStr
      in if date \<noteq> None then
           (let date' = (if \<not> timeMatch then setHours tz date 23 59 59 999 else date)
            in case toISOString date' of Inr isoStr \<Rightarrow> Some isoStr | Inl e \<Rightarrow> None)
         else None)"

text \<open>
  The function: \<open>Inl\<close> is an exception that leaves it, \<open>Inr None\<close> is \<open>null\<close>,
  \<open>Inr (Some isoStr)\<close> an ISO string.
\<close>

definition endOfDay :: "timezone \<Rightarrow> int \<Rightarrow> int \<Rightarrow> jsError + string option" where
  "endOfDay tz now plusDays =
     (case toISOString (newDate tz (getFullYear tz now) (getMonth tz now)
                          (getDate tz now + plusDays) 23 59 59) of
        Inl e \<Rightarrow> Inl e
      | Inr isoStr \<Rightarrow> Inr (Some isoStr))"

definition parseDateString ::
  "timezone \<Rightarrow> (string \<Rightarrow> date) \<Rightarrow> int \<Rightarrow> jsval \<Rightarrow> jsError + string option" where
  "parseDateString tz nativeParse now dateStr =
     (case dateStr of
        JString s \<Rightarrow>
          if s = [] then Inr None
          else
            (let cleanStr = cleanDateStr s
             in if strIncludes cleanStr ''today'' then endOfDay tz now 0
                else if strIncludes cleanStr ''tomorrow'' then endOfDay tz now 1
                else
                  (case extractTime cleanStr of
                     (timeMatch, hours, minutes, cleanStr') \<Rightarrow>
                       (case tryFormats tz now hours minutes cleanStr' dateFormats of
                          Some isoStr \<Rightarrow> Inr (Some isoStr)
                        | None \<Rightarrow> Inr (nativeFallback tz nativeParse timeMatch cleanStr'))))
      | _ \<Rightarrow> Inr None)"

section \<open>The inline copy in the PrairieLearn scraper\<close>

text \<open>\<open>/\b(cst|est|pst|mst|cdt|edt|pdt|mdt)\b/gi\<close>\<close>

definition reZone :: regex where
  "reZone =
     Cat WordBoundary
       (Cat (Group 1 (Alt (lit ''cst'') (Alt (lit ''est'') (Alt (lit ''pst'') (Alt (lit ''mst'')
               (Alt (lit ''cdt'') (Alt (lit ''edt'') (Alt (lit ''pdt'') (lit ''mdt'')))))))))
          WordBoundary)"

text \<open>\<open>/(\d{1,2})\/(\d{1,2})\/(\d{2,4})/\<close>\<close>

definition reSlashYear :: regex where
  "reSlashYear =
     Cat (Group 1 (Rep 1 (Some 2) Digit))
       (Cat (One (Lit CHR ''/''))
         (Cat (Group 2 (Rep 1 (Some 2) Digit))
           (Cat (One (Lit CHR ''/'')) (Group 3 (Rep 2 (Some 4) Digit)))))"

text \<open>
  One month-name attempt: the match, the lookup, the date in the reference year, and the
  ISO string when the date is valid.
\<close>

definition monthNameAttempt ::
  "timezone \<Rightarrow> int \<Rightarrow> int \<Rightarrow> int \<Rightarrow> regex \<Rightarrow> nat \<Rightarrow> nat \<Rightarrow> string \<Rightarrow> (jsError + string) option" where
  "monthNameAttempt tz now hours minutes re gMonth gDay cleanStr =
     (case strMatch True re cleanStr of
        None \<Rightarrow> None
      | Some m \<Rightarrow>
          (let monthName = toLowerCase (strOf (grp m gMonth));
               day = parseInt (strOf (grp m gDay))
           in case monthNames monthName of
                None \<Rightarrow> None
              | Some month \<Rightarrow>
                  (let date = inReferenceYear tz now month day hours minutes
                   in if date \<noteq> None then Some (toISOString date) else None)))"

definition slashYearAttempt ::
  "timezone \<Rightarrow> int \<Rightarrow> int \<Rightarrow> string \<Rightarrow> (jsError + string) option" where
  "slashYearAttempt tz hours minutes cleanStr =
     (case strMatch False reSlashYear cleanStr of
        None \<Rightarrow> None
      | Some m \<Rightarrow>
          (let month = parseInt (strOf (grp m 1)) - 1;
               day = parseInt (strOf (grp m 2));
               year0 = parseInt (strOf (grp m 3));
               year = (if year0 < 100 then year0 + (if year0 < 50 then 2000 else 1900)
                       else year0);
               date = newDate tz year month day hours minutes 0
           in if date \<noteq> None then Some (toISOString date) else None))"

definition returned :: "jsError + string \<Rightarrow> jsError + string option" where
  "returned r = (case r of Inl e \<Rightarrow> Inl e | Inr isoStr \<Rightarrow> Inr (Some isoStr))"

definition parseDateStringPL ::
  "timezone \<Rightarrow> (string \<Rightarrow> date) \<Rightarrow> int \<Rightarrow> jsval \<Rightarrow> jsError + string option" where
  "parseDateStringPL tz nativeParse now dateStr =
     (case dateStr of
        JString s \<Rightarrow>
          if s = [] then Inr None
          else
            (let cleanStr = cleanDateStr s
             in if strIncludes cleanStr ''today'' then endOfDay tz now 0
                else if strIncludes cleanStr ''tomorrow'' then endOfDay tz now 1
                else
                  (case extractTime cleanStr of
                     (timeMatch, hours, minutes, cleanStr1) \<Rightarrow>
                       (let cleanStr2 = trim (replaceAll True reZone [] cleanStr1)
                        in case monthNameAttempt tz now hours minutes reWeekdayMonthDay 2 3
                                  cleanStr2 of
                             Some r \<Rightarrow> returned r
                           | None \<Rightarrow>
                        (case monthNameAttempt tz now hours minutes reMonthDay 1 2
                                  cleanStr2 of
                             Some r \<Rightarrow> returned r
                           | None \<Rightarrow>
                        (case slashYearAttempt tz hours minutes cleanStr2 of
                             Some r \<Rightarrow> returned r
                           | None \<Rightarrow>
                               Inr (nativeFallback tz nativeParse timeMatch cleanStr2))))))
      | _ \<Rightarrow> Inr None)"

text \<open>Sample hosts: a host on UTC, and a host that reads no free-form date.\<close>

definition utcZone :: timezone where
  "utcZone = \<lparr> offsetAtUTC = (\<lambda>t. 0), offsetAtLocal = (\<lambda>t. 0) \<rparr>"

definition noNative :: "string \<Rightarrow> date" where
  "noNative s = None"

text \<open>1 June 2025, 00:00 UTC.\<close>

definition june1st2025 :: int where
  "june1st2025 = 1748736000000"

section \<open>Runs, invariants and sample data\<close>

text \<open>A run of the worker: the events are handled in order, the calls are collected.\<close>

fun run :: "(int \<times> event) list \<Rightarrow> store \<Rightarrow> store \<times> (string \<times> bool) list" where
  "run [] st = (st, [])"
| "run (e # es) st =
     (let r1 = step e st; r2 = run es (fst r1) in (fst r2, snd r1 @ snd r2))"

text \<open>
  A stored collection is well formed when no two records share an id. The empty store is,
  and every handler keeps it so (lemma \<open>wf_step\<close> below).
\<close>

definition wellFormed :: "store \<Rightarrow> bool" where
  "wellFormed st = distinct (map item_id (items (getStorageData st)))"

definition present :: "string \<Rightarrow> store \<Rightarrow> bool" where
  "present x st = (x \<in> item_id ` set (items (getStorageData st)))"

definition notified :: "string \<Rightarrow> store \<Rightarrow> bool" where
  "notified x st =
     (\<exists>it \<in> set (items (getStorageData st)). item_id it = x \<and> notificationSent it = Some True)"

text \<open>
  The two handlers that delete records: the retention sweep and clear-all. Every other
  handler keeps one record for each stored id.
\<close>

fun dropsRecords :: "event \<Rightarrow> bool" where
  "dropsRecords Cleanup = True"
| "dropsRecords ClearData = True"
| "dropsRecords (ScrapeResult ns) = False"
| "dropsRecords (ToggleItemDone i v) = False"
| "dropsRecords (UpdateSettings q) = False"
| "dropsRecords (NotificationCheck creates) = False"

text \<open>
  Every retention sweep of the run retains the record with id \<open>x\<close>, and the run has no
  clear-all (which retains nothing). The other events of the run are unconstrained.
\<close>

fun retained :: "string \<Rightarrow> (int \<times> event) list \<Rightarrow> store \<Rightarrow> bool" where
  "retained x [] st = True"
| "retained x (e # es) st =
     ((dropsRecords (snd e) \<longrightarrow> present x (fst (step e st))) \<and>
      retained x es (fst (step e st)))"

text \<open>
  The last record of a batch with the id \<open>x\<close>: when several records of a batch share an
  id, each one replaces the map entry of the one before.
\<close>

definition lastWithId :: "string \<Rightarrow> item list \<Rightarrow> item" where
  "lastWithId x ns = last (filter (\<lambda>a. item_id a = x) ns)"

text \<open>Every key of the map is the id of its value, and no key occurs twice.\<close>

definition keyed :: "itemMap \<Rightarrow> bool" where
  "keyed m = (distinct (map fst m) \<and> (\<forall>(k, v) \<in> set m. item_id v = k))"

definition flagIds :: "string set \<Rightarrow> item list \<Rightarrow> item list" where
  "flagIds S xs =
     map (\<lambda>it. if item_id it \<in> S then it\<lparr>notificationSent := Some True\<rparr> else it) xs"

text \<open>Sample records, as the two scrapers build them, and sample stores.\<close>

definition quiz1 :: item where
  "quiz1 = \<lparr> item_id = ''prairielearn-https---pl-test-a-1'', title = ''Quiz 1'',
     dueDate = 1760000000000, course = ''CS 101'', link = ''https://pl.test/a/1'',
     source = ''PrairieLearn'', pastDue = Some False, item_done = None,
     notificationSent = None \<rparr>"

definition quiz2 :: item where
  "quiz2 = quiz1 \<lparr> title := ''Quiz 2'', dueDate := 1760600000000 \<rparr>"

definition hw1 :: item where
  "hw1 = \<lparr> item_id = ''gradescope-https---gs-test-c-1-a-7'', title = ''HW1'',
     dueDate = 3600000, course = ''CS 225'', link = ''https://gs.test/c/1/a/7'',
     source = ''Gradescope'', pastDue = None, item_done = None,
     notificationSent = None \<rparr>"

definition dueIn :: "int \<Rightarrow> item" where
  "dueIn t = quiz1\<lparr>dueDate := t\<rparr>"

definition storeOf :: "item list \<Rightarrow> store" where
  "storeOf xs = Some \<lparr> items = xs, settings = DEFAULT_SETTINGS \<rparr>"

definition rejectAll :: "string \<Rightarrow> bool" where
  "rejectAll i = False"

definition acceptAll :: "string \<Rightarrow> bool" where
  "acceptAll i = True"

definition allButHw1 :: "string \<Rightarrow> bool" where
  "allButHw1 i = (i \<noteq> item_id hw1)"

definition notifiedStore :: store where
  "notifiedStore = storeOf [hw1\<lparr>notificationSent := Some True\<rparr>, quiz1]"

definition sampleTrace :: "(int \<times> event) list" where
  "sampleTrace =
     [(0, NotificationCheck acceptAll),
      (60000, ScrapeResult [hw1\<lparr>title := ''HW1 (updated)''\<rparr>]),
      (120000, UpdateSettings \<lparr> patchEnabled = None, patchHours = Some 48 \<rparr>),
      (180000, Cleanup),
      (1800000, NotificationCheck acceptAll)]"

section \<open>Assumptions on the host\<close>

text \<open>
  A host whose clock reads a time after the epoch and at least four days before the end
  of the range of \<open>Date\<close>, and whose time zone offsets are at most a day.
\<close>

definition saneHost :: "timezone \<Rightarrow> int \<Rightarrow> bool" where
  "saneHost tz now =
     (0 \<le> now \<and> now \<le> 8640000000000000 - 4 * msPerDay \<and>
      \<bar>offsetAtUTC tz now\<bar> \<le> msPerDay \<and>
      (\<forall>t. \<bar>offsetAtLocal tz t\<bar> \<le> msPerDay))"

text \<open>
  What \<open>parseDateString\<close> may return without raising: \<open>null\<close>, or a string that
  \<open>toISOString\<close> produces for some instant.
\<close>

definition okResult :: "jsError + string option \<Rightarrow> bool" where
  "okResult r =
     (r = Inr None \<or> (\<exists>isoStr t. r = Inr (Some isoStr) \<and> toISOString (Some t) = Inr isoStr))"

text \<open>
  The inputs that take the relative-day branch: a non-empty string whose cleaned form
  contains \<open>today\<close> or \<open>tomorrow\<close>.
\<close>

fun relativeDay :: "jsval \<Rightarrow> bool" where
  "relativeDay (JString s) =
     (s \<noteq> [] \<and>
      (strIncludes (cleanDateStr s) ''today'' \<or> strIncludes (cleanDateStr s) ''tomorrow''))"
| "relativeDay v = False"



section \<open>Lemmas about the map and the merge\<close>

lemma map_of_map_set: "map_of (map_set k v m) = (map_of m)(k \<mapsto> v)"
  by (induction m) (auto simp: fun_eq_iff)

lemma fst_map_set:
  "map fst (map_set k v m) = (if k \<in> fst ` set m then map fst m else map fst m @ [k])"
  by (induction m) (force split: if_splits)+

lemma distinct_map_set: "distinct (map fst m) \<Longrightarrow> distinct (map fst (map_set k v m))"
  by (simp add: fst_map_set)

lemma map_set_same: "map_of m k = Some v \<Longrightarrow> map_set k v m = m"
  by (induction m) (auto split: if_splits)

lemma keyed_map_set: "keyed m \<Longrightarrow> item_id v = k \<Longrightarrow> keyed (map_set k v m)"
proof -
  assume k: "keyed m" and v: "item_id v = k"
  have "\<forall>(k', v') \<in> set (map_set k v m). item_id v' = k'"
    using k v unfolding keyed_def by (induction m) (auto split: if_splits)
  then show ?thesis using k by (simp add: keyed_def distinct_map_set)
qed

lemma preserveFlags_id [simp]: "item_id (preserveFlags e n) = item_id n"
  by (auto simp: preserveFlags_def Let_def split: option.splits)

lemma keyed_addNewItem: "keyed m \<Longrightarrow> keyed (addNewItem m n)"
  by (simp add: addNewItem_def Let_def keyed_map_set)

lemma keyed_fold_add: "keyed m \<Longrightarrow> keyed (foldl addNewItem m ns)"
  by (induction ns arbitrary: m) (simp_all add: keyed_addNewItem)

lemma keyed_fold_set: "keyed m \<Longrightarrow> keyed (foldl (\<lambda>m it. map_set (item_id it) it m) m xs)"
  by (induction xs arbitrary: m) (simp_all add: keyed_map_set)

lemma keyed_Nil: "keyed []" by (simp add: keyed_def)

lemma keyed_ids: "keyed m \<Longrightarrow> map item_id (map_values m) = map fst m"
  by (induction m) (auto simp: keyed_def map_values_def)

lemma distinct_reconcile: "distinct (map item_id (reconcile xs ns))"
proof -
  let ?m = "foldl addNewItem (foldl (\<lambda>m it. map_set (item_id it) it m) [] xs) ns"
  have k: "keyed ?m" by (intro keyed_fold_add keyed_fold_set keyed_Nil)
  then have "distinct (map item_id (map_values ?m))"
    by (simp add: keyed_ids keyed_def)
  then have "distinct (map item_id (sort_key dueDate (map_values ?m)))"
    by (simp add: distinct_map inj_on_def)
  then show ?thesis by (simp add: reconcile_def Let_def)
qed

lemma map_set_new: "k \<notin> fst ` set m \<Longrightarrow> map_set k v m = m @ [(k, v)]"
  by (induction m) auto

lemma fold_set_distinct:
  "distinct (map item_id xs) \<Longrightarrow> item_id ` set xs \<inter> fst ` set m = {} \<Longrightarrow>
   foldl (\<lambda>m it. map_set (item_id it) it m) m xs = m @ map (\<lambda>it. (item_id it, it)) xs"
proof (induction xs arbitrary: m)
  case Nil
  then show ?case by simp
next
  case (Cons a xs)
  have new: "item_id a \<notin> fst ` set m" using Cons.prems(2) by auto
  have disj: "item_id ` set xs \<inter> fst ` set (m @ [(item_id a, a)]) = {}"
    using Cons.prems by auto
  show ?case
    using Cons.IH [OF _ disj] Cons.prems(1) by (simp add: map_set_new [OF new])
qed

lemma itemMap0_distinct:
  "distinct (map item_id xs) \<Longrightarrow>
   foldl (\<lambda>m it. map_set (item_id it) it m) [] xs = map (\<lambda>it. (item_id it, it)) xs"
  using fold_set_distinct [of xs "[]"] by simp

lemma map_of_idmap:
  "distinct (map item_id xs) \<Longrightarrow> e \<in> set xs \<Longrightarrow>
   map_of (map (\<lambda>it. (item_id it, it)) xs) (item_id e) = Some e"
  by (induction xs) (auto simp: rev_image_eqI)

lemma preserveFlags_self: "preserveFlags (Some n) n = n"
  by (simp add: preserveFlags_def Let_def)

lemma addNewItem_same: "map_of m (item_id n) = Some n \<Longrightarrow> addNewItem m n = m"
  by (simp add: addNewItem_def Let_def map_get_def preserveFlags_self map_set_same)

lemma fold_add_same:
  "\<forall>n \<in> set ns. map_of m (item_id n) = Some n \<Longrightarrow> foldl addNewItem m ns = m"
  by (induction ns) (simp_all add: addNewItem_same)

lemma reconcile_self:
  assumes "distinct (map item_id X)"
  shows "reconcile X X = sort_key dueDate X"
proof -
  let ?m = "map (\<lambda>it. (item_id it, it)) X"
  have "foldl addNewItem ?m X = ?m"
    by (rule fold_add_same) (simp add: map_of_idmap [OF assms])
  then show ?thesis
    by (simp add: reconcile_def Let_def itemMap0_distinct [OF assms] map_values_def comp_def)
qed

lemma map_of_addNewItem:
  "map_of (addNewItem m n) =
     (map_of m)(item_id n \<mapsto> preserveFlags (map_of m (item_id n)) n)"
  by (simp add: addNewItem_def Let_def map_get_def map_of_map_set)

lemma map_of_fold_add:
  "distinct (map item_id ns) \<Longrightarrow>
   map_of (foldl addNewItem m ns) k =
     (case find (\<lambda>n. item_id n = k) ns of
        Some n \<Rightarrow> Some (preserveFlags (map_of m k) n)
      | None \<Rightarrow> map_of m k)"
proof (induction ns arbitrary: m)
  case Nil
  then show ?case by simp
next
  case (Cons a ns)
  have d: "distinct (map item_id ns)" and a: "item_id a \<notin> item_id ` set ns"
    using Cons.prems by auto
  have none: "find (\<lambda>n. item_id n = item_id a) ns = None"
    using a by (induction ns) auto
  show ?case
    using Cons.IH [OF d, of "addNewItem m a"] none
    by (auto simp: map_of_addNewItem split: option.splits)
qed

lemma find_distinct:
  "distinct (map item_id ns) \<Longrightarrow> n \<in> set ns \<Longrightarrow> find (\<lambda>x. item_id x = item_id n) ns = Some n"
  by (induction ns) (auto simp: rev_image_eqI)

lemma keyed_values: "keyed m \<Longrightarrow> map_of m k = Some v \<Longrightarrow> v \<in> set (map_values m)"
  by (auto simp: map_values_def dest!: map_of_SomeD intro: rev_image_eqI)

lemma reconcile_lookup:
  assumes dE: "distinct (map item_id existing)" and dN: "distinct (map item_id newItems)"
    and n: "n \<in> set newItems"
  shows "preserveFlags (find (\<lambda>e. item_id e = item_id n) existing) n
           \<in> set (reconcile existing newItems)"
proof -
  let ?m0 = "map (\<lambda>it. (item_id it, it)) existing"
  let ?m1 = "foldl addNewItem ?m0 newItems"
  have m0: "map_of ?m0 (item_id n) = find (\<lambda>e. item_id e = item_id n) existing"
    by (induction existing) auto
  have "keyed ?m1"
    using keyed_fold_add [OF keyed_fold_set [OF keyed_Nil, of existing], of newItems]
    by (simp add: itemMap0_distinct [OF dE])
  moreover have "map_of ?m1 (item_id n) =
      Some (preserveFlags (find (\<lambda>e. item_id e = item_id n) existing) n)"
    by (simp add: map_of_fold_add [OF dN] find_distinct [OF dN n] m0)
  ultimately have "preserveFlags (find (\<lambda>e. item_id e = item_id n) existing) n
      \<in> set (map_values ?m1)"
    by (rule keyed_values)
  then show ?thesis
    by (simp add: reconcile_def Let_def itemMap0_distinct [OF dE])
qed

lemma find_id_None: "find (\<lambda>e. item_id e = k) xs = None \<longleftrightarrow> k \<notin> item_id ` set xs"
  by (induction xs) auto

section \<open>Lemmas about batches with shared ids\<close>

lemma preserveFlags_scraped:
  "title (preserveFlags e n) = title n \<and> dueDate (preserveFlags e n) = dueDate n \<and>
   course (preserveFlags e n) = course n \<and> link (preserveFlags e n) = link n \<and>
   source (preserveFlags e n) = source n \<and> pastDue (preserveFlags e n) = pastDue n"
  by (simp add: preserveFlags_def Let_def split: option.splits)

lemma preserveFlags_idem: "preserveFlags (Some (preserveFlags e n)) n = preserveFlags e n"
  by (cases e) (auto simp: preserveFlags_def Let_def truthy_def)

lemma sticky_fold:
  "\<exists>v. map_of m x = Some v \<and> (d \<longrightarrow> item_done v = Some True) \<and>
        (s \<longrightarrow> notificationSent v = Some True) \<Longrightarrow>
   \<exists>v. map_of (foldl addNewItem m ns) x = Some v \<and> (d \<longrightarrow> item_done v = Some True) \<and>
        (s \<longrightarrow> notificationSent v = Some True)"
proof (induction ns arbitrary: m)
  case Nil
  then show ?case by simp
next
  case (Cons a ns)
  have "\<exists>v. map_of (addNewItem m a) x = Some v \<and> (d \<longrightarrow> item_done v = Some True) \<and>
        (s \<longrightarrow> notificationSent v = Some True)"
    using Cons.prems
    by (auto simp: map_of_addNewItem preserveFlags_def Let_def truthy_def)
  then show ?case using Cons.IH by simp
qed

lemma last_fold:
  "filter (\<lambda>a. item_id a = x) ns \<noteq> [] \<Longrightarrow>
   \<exists>e. map_of (foldl addNewItem m ns) x = Some (preserveFlags e (lastWithId x ns))"
proof (induction ns rule: rev_induct)
  case Nil
  then show ?case by simp
next
  case (snoc a ns)
  show ?case
  proof (cases "item_id a = x")
    case True
    then show ?thesis by (auto simp: map_of_addNewItem lastWithId_def)
  next
    case False
    then show ?thesis using snoc by (simp add: map_of_addNewItem lastWithId_def)
  qed
qed

lemma single_fold:
  assumes u: "\<forall>a \<in> set ns. item_id a = item_id n \<longrightarrow> a = n"
  shows "map_of (foldl addNewItem m ns) (item_id n) =
         (if n \<in> set ns then Some (preserveFlags (map_of m (item_id n)) n)
          else map_of m (item_id n))"
  using u
proof (induction ns arbitrary: m)
  case Nil
  then show ?case by simp
next
  case (Cons a ns)
  have u': "\<forall>a \<in> set ns. item_id a = item_id n \<longrightarrow> a = n" using Cons.prems by simp
  note IH = Cons.IH [OF u', of "addNewItem m a"]
  show ?case
  proof (cases "a = n")
    case True
    then show ?thesis using IH by (simp add: map_of_addNewItem preserveFlags_idem)
  next
    case False
    then have "item_id a \<noteq> item_id n" using Cons.prems by auto
    then show ?thesis using IH False by (auto simp: map_of_addNewItem)
  qed
qed


lemma lastWithId_in:
  "n \<in> set ns \<Longrightarrow> lastWithId (item_id n) ns \<in> set ns \<and>
     item_id (lastWithId (item_id n) ns) = item_id n"
proof -
  assume "n \<in> set ns"
  then have "filter (\<lambda>a. item_id a = item_id n) ns \<noteq> []"
    by (auto simp: filter_empty_conv)
  from last_in_set [OF this] show ?thesis by (simp add: lastWithId_def)
qed

lemma harmless_fold:
  assumes h: "\<forall>a \<in> set ns. item_id a = item_id n \<and> a \<noteq> n \<longrightarrow>
                item_done a \<noteq> Some True \<and> notificationSent a \<noteq> Some True"
  shows "preserveFlags (map_of (foldl addNewItem m ns) (item_id n)) n =
         preserveFlags (map_of m (item_id n)) n"
  using h
proof (induction ns arbitrary: m)
  case Nil
  then show ?case by simp
next
  case (Cons a ns)
  have h': "\<forall>a \<in> set ns. item_id a = item_id n \<and> a \<noteq> n \<longrightarrow>
                item_done a \<noteq> Some True \<and> notificationSent a \<noteq> Some True"
    using Cons.prems by simp
  have "preserveFlags (map_of (addNewItem m a) (item_id n)) n =
        preserveFlags (map_of m (item_id n)) n"
  proof (cases "item_id a = item_id n")
    case False
    then show ?thesis by (simp add: map_of_addNewItem)
  next
    case True
    show ?thesis
    proof (cases "a = n")
      case True
      then show ?thesis by (simp add: map_of_addNewItem preserveFlags_idem)
    next
      case False
      then have f: "item_done a \<noteq> Some True" "notificationSent a \<noteq> Some True"
        using Cons.prems True by simp_all
      show ?thesis using True f
        by (cases "map_of m (item_id n)")
           (auto simp: map_of_addNewItem preserveFlags_def Let_def truthy_def)
    qed
  qed
  then show ?case using Cons.IH [OF h', of "addNewItem m a"] by simp
qed

lemma exact_fold:
  assumes n: "n \<in> set ns" and l: "n = lastWithId (item_id n) ns"
    and h: "\<forall>a \<in> set ns. item_id a = item_id n \<and> a \<noteq> n \<longrightarrow>
                item_done a \<noteq> Some True \<and> notificationSent a \<noteq> Some True"
  shows "map_of (foldl addNewItem m ns) (item_id n) =
         Some (preserveFlags (map_of m (item_id n)) n)"
  using n l h
proof (induction ns rule: rev_induct)
  case Nil
  then show ?case by simp
next
  case (snoc a ns)
  show ?case
  proof (cases "item_id a = item_id n")
    case True
    then have "a = n" using snoc.prems(2) by (simp add: lastWithId_def)
    moreover have "\<forall>a \<in> set ns. item_id a = item_id n \<and> a \<noteq> n \<longrightarrow>
                item_done a \<noteq> Some True \<and> notificationSent a \<noteq> Some True"
      using snoc.prems(3) by simp
    ultimately show ?thesis
      by (simp add: map_of_addNewItem harmless_fold)
  next
    case False
    then have 1: "n \<in> set ns" using snoc.prems(1) by auto
    have 2: "n = lastWithId (item_id n) ns"
      using snoc.prems(2) False by (simp add: lastWithId_def)
    have 3: "\<forall>a \<in> set ns. item_id a = item_id n \<and> a \<noteq> n \<longrightarrow>
                item_done a \<noteq> Some True \<and> notificationSent a \<noteq> Some True"
      using snoc.prems(3) by simp
    show ?thesis using snoc.IH [OF 1 2 3] False by (simp add: map_of_addNewItem)
  qed
qed

section \<open>Lemmas about the scheduler loop and the invariants\<close>

lemma findIndex_update:
  "distinct (map item_id xs) \<Longrightarrow>
   (case findIndex (\<lambda>i. item_id i = k) xs of
      Some j \<Rightarrow> xs[j := (xs ! j)\<lparr>notificationSent := Some True\<rparr>]
    | None \<Rightarrow> xs) =
   map (\<lambda>it. if item_id it = k then it\<lparr>notificationSent := Some True\<rparr> else it) xs"
proof (induction xs)
  case Nil
  then show ?case by simp
next
  case (Cons a xs)
  show ?case
  proof (cases "item_id a = k")
    case True
    then have "\<forall>it \<in> set xs. item_id it \<noteq> k" using Cons.prems by (auto simp: image_iff)
    then have "map (\<lambda>it. if item_id it = k then it\<lparr>notificationSent := Some True\<rparr> else it) xs = xs"
      by (simp add: map_idI)
    then show ?thesis using True by simp
  next
    case False
    then show ?thesis using Cons by (auto split: option.splits)
  qed
qed

lemma flagIds_ids [simp]: "map item_id (flagIds S xs) = map item_id xs"
  by (simp add: flagIds_def comp_def)

lemma notifyItem_wf:
  assumes "distinct (map item_id xs)"
  shows "notifyItem creates (xs, calls) it =
     (flagIds (if creates (item_id it) then {item_id it} else {}) xs,
      calls @ [(item_id it, creates (item_id it))])"
proof (cases "creates (item_id it)")
  case True
  show ?thesis
    using findIndex_update [OF assms, of "item_id it"] True
    by (auto simp: notifyItem_def Let_def flagIds_def split: option.splits)
next
  case False
  then show ?thesis by (simp add: notifyItem_def Let_def flagIds_def)
qed

lemma flagIds_flagIds: "flagIds T (flagIds S xs) = flagIds (S \<union> T) xs"
  by (auto simp: flagIds_def)

lemma fold_notify_wf:
  "distinct (map item_id xs) \<Longrightarrow>
   foldl (notifyItem creates) (xs, calls) sel =
     (flagIds {item_id s | s. s \<in> set sel \<and> creates (item_id s)} xs,
      calls @ map (\<lambda>s. (item_id s, creates (item_id s))) sel)"
proof (induction sel arbitrary: xs calls)
  case Nil
  then show ?case by (simp add: flagIds_def)
next
  case (Cons a sel)
  let ?S = "if creates (item_id a) then {item_id a} else {}"
  have d: "distinct (map item_id (flagIds ?S xs))" using Cons.prems by simp
  have eq: "?S \<union> {item_id s | s. s \<in> set sel \<and> creates (item_id s)} =
            {item_id s | s. s \<in> set (a # sel) \<and> creates (item_id s)}"
    by auto
  show ?case
    using Cons.IH [OF d] eq
    by (simp add: notifyItem_wf [OF Cons.prems] flagIds_flagIds del: set_simps)
qed

lemma tick_wf:
  assumes wf: "wellFormed st" and en: "notificationsEnabled (settings (getStorageData st))"
  shows "items (getStorageData (fst (checkAndSendNotifications creates now st))) =
           flagIds {item_id s | s. s \<in> set (itemsToNotify now (getStorageData st)) \<and> creates (item_id s)}
             (items (getStorageData st))"
    and "snd (checkAndSendNotifications creates now st) =
           map (\<lambda>s. (item_id s, creates (item_id s))) (itemsToNotify now (getStorageData st))"
    and "settings (getStorageData (fst (checkAndSendNotifications creates now st))) =
           settings (getStorageData st)"
proof -
  let ?d = "getStorageData st"
  have d: "distinct (map item_id (items ?d))" using wf by (simp add: wellFormed_def)
  note f = fold_notify_wf [OF d, of creates "[]" "itemsToNotify now ?d"]
  show "items (getStorageData (fst (checkAndSendNotifications creates now st))) =
           flagIds {item_id s | s. s \<in> set (itemsToNotify now ?d) \<and> creates (item_id s)}
             (items ?d)"
    using en f
    by (cases "itemsToNotify now ?d = []")
       (auto simp: checkAndSendNotifications_def Let_def getStorageData_def flagIds_def
             split: option.splits)
  show "snd (checkAndSendNotifications creates now st) =
           map (\<lambda>s. (item_id s, creates (item_id s))) (itemsToNotify now ?d)"
    using en f by (simp add: checkAndSendNotifications_def Let_def)
  show "settings (getStorageData (fst (checkAndSendNotifications creates now st))) =
           settings ?d"
    using en by (simp add: checkAndSendNotifications_def Let_def getStorageData_def)
qed

lemma tick_disabled:
  "\<not> notificationsEnabled (settings (getStorageData st)) \<Longrightarrow>
   checkAndSendNotifications creates now st = (st, [])"
  by (simp add: checkAndSendNotifications_def Let_def)

lemma wf_step: "wellFormed st \<Longrightarrow> wellFormed (fst (step e st))"
proof (cases e)
  case (Pair now ev)
  assume wf: "wellFormed st"
  show ?thesis
  proof (cases ev)
    case (ScrapeResult ns)
    then show ?thesis using Pair
      by (simp add: wellFormed_def handleScrapeResult_def Let_def getStorageData_def distinct_reconcile)
  next
    case (ToggleItemDone mid v)
    have c: "map (item_id \<circ> (\<lambda>it. if item_id it = mid then it\<lparr>item_done := Some v\<rparr> else it)) xs
          = map item_id xs" for xs :: "item list"
      by (induction xs) auto
    show ?thesis using Pair ToggleItemDone wf
      by (simp add: wellFormed_def toggleItemDone_def Let_def getStorageData_def c)
  next
    case (UpdateSettings p)
    then show ?thesis using Pair wf
      by (simp add: wellFormed_def updateSettings_def Let_def getStorageData_def)
  next
    case ClearData
    then show ?thesis using Pair
      by (simp add: wellFormed_def clearAllData_def getStorageData_def DEFAULT_STORAGE_def)
  next
    case (NotificationCheck creates)
    show ?thesis
    proof (cases "notificationsEnabled (settings (getStorageData st))")
      case True
      show ?thesis using wf tick_wf(1) [OF wf True, of creates now] Pair NotificationCheck
        by (simp add: wellFormed_def)
    next
      case False
      then show ?thesis using wf Pair NotificationCheck by (simp add: tick_disabled)
    qed
  next
    case Cleanup
    then show ?thesis using Pair wf
      by (auto simp: wellFormed_def cleanupOldItems_def Let_def getStorageData_def distinct_map_filter)
  qed
qed

lemma notified_flagIds: "\<exists>it \<in> set xs. item_id it = x \<and> notificationSent it = Some True \<Longrightarrow>
   \<exists>it \<in> set (flagIds S xs). item_id it = x \<and> notificationSent it = Some True"
  by (auto simp: flagIds_def) force

lemma notified_reconcile:
  assumes d: "distinct (map item_id existing)"
    and e: "e \<in> set existing" "notificationSent e = Some True"
  shows "\<exists>r \<in> set (reconcile existing ns). item_id r = item_id e \<and> notificationSent r = Some True"
proof -
  let ?x = "item_id e"
  let ?m0 = "map (\<lambda>it. (item_id it, it)) existing"
  have inv: "\<exists>v. map_of m ?x = Some v \<and> notificationSent v = Some True \<Longrightarrow>
        \<exists>v. map_of (foldl addNewItem m ns) ?x = Some v \<and> notificationSent v = Some True" for m
  proof (induction ns arbitrary: m)
    case Nil
    then show ?case by simp
  next
    case (Cons a ns)
    have "\<exists>v. map_of (addNewItem m a) ?x = Some v \<and> notificationSent v = Some True"
      using Cons.prems
      by (auto simp: map_of_addNewItem preserveFlags_def Let_def truthy_def)
    then show ?case using Cons.IH by simp
  qed
  have "\<exists>v. map_of ?m0 ?x = Some v \<and> notificationSent v = Some True"
    using map_of_idmap [OF d e(1)] e(2) by simp
  from inv [OF this] obtain v where
    v: "map_of (foldl addNewItem ?m0 ns) ?x = Some v" "notificationSent v = Some True"
    by blast
  have k: "keyed (foldl addNewItem ?m0 ns)"
    using keyed_fold_add [OF keyed_fold_set [OF keyed_Nil, of existing], of ns]
    by (simp add: itemMap0_distinct [OF d])
  have "v \<in> set (map_values (foldl addNewItem ?m0 ns))" by (rule keyed_values [OF k v(1)])
  moreover have "item_id v = ?x"
    using k map_of_SomeD [OF v(1)] by (auto simp: keyed_def)
  ultimately show ?thesis using v(2)
    by (auto simp: reconcile_def Let_def itemMap0_distinct [OF d])
qed

lemma notified_step:
  assumes wf: "wellFormed st" and n: "notified x st"
    and r: "dropsRecords (snd e) \<longrightarrow> present x (fst (step e st))"
  shows "notified x (fst (step e st))"
proof (cases e)
  case (Pair now ev)
  from n obtain it where it: "it \<in> set (items (getStorageData st))" "item_id it = x"
      "notificationSent it = Some True"
    by (auto simp: notified_def)
  have d: "distinct (map item_id (items (getStorageData st)))"
    using wf by (simp add: wellFormed_def)
  show ?thesis
  proof (cases ev)
    case (ScrapeResult ns)
    then show ?thesis using Pair notified_reconcile [OF d it(1) it(3), of ns] it(2)
      by (simp add: notified_def handleScrapeResult_def Let_def getStorageData_def)
  next
    case (ToggleItemDone mid v)
    have "(if item_id it = mid then it\<lparr>item_done := Some v\<rparr> else it)
          \<in> set (items (getStorageData (toggleItemDone mid v st)))"
      using it(1) by (simp add: toggleItemDone_def Let_def getStorageData_def)
    then show ?thesis using Pair ToggleItemDone it(2,3)
      unfolding notified_def by (intro bexI [where x = "if item_id it = mid then it\<lparr>item_done := Some v\<rparr> else it"]) auto
  next
    case (UpdateSettings q)
    then show ?thesis using Pair n
      by (simp add: notified_def updateSettings_def Let_def getStorageData_def)
  next
    case ClearData
    then show ?thesis using Pair r
      by (simp add: present_def clearAllData_def getStorageData_def DEFAULT_STORAGE_def)
  next
    case (NotificationCheck creates)
    show ?thesis
    proof (cases "notificationsEnabled (settings (getStorageData st))")
      case True
      show ?thesis
        using tick_wf(1) [OF wf True, of creates now] Pair NotificationCheck
          notified_flagIds [of "items (getStorageData st)" x] n
        by (simp add: notified_def)
    next
      case False
      then show ?thesis using n Pair NotificationCheck by (simp add: tick_disabled)
    qed
  next
    case Cleanup
    have p: "present x (fst (step e st))" using r Pair Cleanup by simp
    have "it \<in> set (items (getStorageData (fst (cleanupOldItems now st))))"
    proof -
      from p Pair Cleanup obtain it' where it': "it' \<in> set (items (getStorageData (fst (cleanupOldItems now st))))"
        "item_id it' = x"
        by (auto simp: present_def)
      then have "it' \<in> set (items (getStorageData st))"
        by (auto simp: cleanupOldItems_def Let_def getStorageData_def split: if_splits)
      then have "it' = it" using d it(1,2) it'(2)
        by (metis distinct_map inj_onD)
      then show ?thesis using it'(1) by simp
    qed
    then show ?thesis using Pair Cleanup it(2,3) by (auto simp: notified_def)
  qed
qed

lemma notified_no_call:
  assumes wf: "wellFormed st" and n: "notified x st"
  shows "x \<notin> fst ` set (snd (step e st))"
proof (cases e)
  case (Pair now ev)
  show ?thesis
  proof (cases ev)
    case (NotificationCheck creates)
    show ?thesis
    proof (cases "notificationsEnabled (settings (getStorageData st))")
      case True
      from n obtain it where it: "it \<in> set (items (getStorageData st))" "item_id it = x"
        "notificationSent it = Some True"
        by (auto simp: notified_def)
      have d: "distinct (map item_id (items (getStorageData st)))"
        using wf by (simp add: wellFormed_def)
      have "s \<in> set (itemsToNotify now (getStorageData st)) \<Longrightarrow> item_id s \<noteq> x" for s
      proof
        assume s: "s \<in> set (itemsToNotify now (getStorageData st))" and "item_id s = x"
        then have "s \<in> set (items (getStorageData st))" "notificationSent s \<noteq> Some True"
          by (auto simp: itemsToNotify_def Let_def truthy_def)
        moreover have "s = it" using d it(1,2) \<open>item_id s = x\<close> calculation(1)
          by (metis distinct_map inj_onD)
        ultimately show False using it(3) by simp
      qed
      then show ?thesis using tick_wf(2) [OF wf True, of creates now] Pair NotificationCheck
        by (auto simp: image_iff)
    next
      case False
      then show ?thesis using Pair NotificationCheck by (simp add: tick_disabled)
    qed
  qed (use Pair in simp_all)
qed

lemma tick_cond:
  assumes d: "distinct (map item_id xs)" and sub: "set sel \<subseteq> set xs" and it: "it \<in> set xs"
  shows "item_id it \<in> {item_id s | s. s \<in> set sel \<and> creates (item_id s)}
              \<longleftrightarrow> it \<in> set sel \<and> creates (item_id it)"
proof
  assume "item_id it \<in> {item_id s | s. s \<in> set sel \<and> creates (item_id s)}"
  then obtain s where s: "s \<in> set sel" "creates (item_id s)" "item_id it = item_id s"
    by auto
  then have sx: "s \<in> set xs" using sub by auto
  have "inj_on item_id (set xs)" using d by (simp add: distinct_map)
  from inj_onD [OF this s(3) [symmetric] sx it] have "s = it" .
  then show "it \<in> set sel \<and> creates (item_id it)" using s(1,2) by simp
next
  assume "it \<in> set sel \<and> creates (item_id it)"
  then show "item_id it \<in> {item_id s | s. s \<in> set sel \<and> creates (item_id s)}" by auto
qed

lemma flagIds_sel:
  assumes d: "distinct (map item_id xs)" and sub: "set sel \<subseteq> set xs"
  shows "flagIds {item_id s | s. s \<in> set sel \<and> creates (item_id s)} xs =
         map (\<lambda>it. if it \<in> set sel \<and> creates (item_id it)
                     then it\<lparr>notificationSent := Some True\<rparr> else it) xs"
  unfolding flagIds_def
proof (rule map_cong [OF refl])
  fix it assume "it \<in> set xs"
  from tick_cond [OF d sub this, of creates]
  show "(if item_id it \<in> {item_id s | s. s \<in> set sel \<and> creates (item_id s)}
             then it\<lparr>notificationSent := Some True\<rparr> else it) =
        (if it \<in> set sel \<and> creates (item_id it)
                     then it\<lparr>notificationSent := Some True\<rparr> else it)"
    by (simp only:)
qed


lemma retained_no_drop: "\<forall>e \<in> set es. \<not> dropsRecords (snd e) \<Longrightarrow> retained x es st"
  by (induction es arbitrary: st) simp_all

section \<open>Lemmas about the calendar\<close>

lemma div_shift: "(c::int) \<noteq> 0 \<Longrightarrow> (x - k * c) div c = x div c - k"
  using div_mult_self1 [of c x "- k"] by (simp add: algebra_simps)

lemma div_pred:
  fixes y c :: int
  assumes c: "1 < c"
  shows "y div c - (y - 1) div c = (if y mod c = 0 then 1 else 0)"
proof -
  have "y - 1 = (y mod c - 1) + (y div c) * c"
    by (simp add: algebra_simps)
  then have "(y - 1) div c = ((y mod c - 1) + (y div c) * c) div c"
    by (rule arg_cong [where f = "\<lambda>z. z div c"])
  also have "\<dots> = y div c + (y mod c - 1) div c"
    using c by (subst div_mult_self1) simp_all
  finally have eq: "(y - 1) div c = y div c + (y mod c - 1) div c" .
  show ?thesis
  proof (cases "y mod c = 0")
    case True
    have "(- 1) div c = - 1"
      using c zdiv_zminus1_eq_if [of c 1] by simp
    then show ?thesis using eq True by simp
  next
    case False
    have "0 \<le> y mod c" "y mod c < c" using c by simp_all
    then have "0 \<le> y mod c - 1" "y mod c - 1 < c" using False by linarith+
    then have "(y mod c - 1) div c = 0" by (simp add: div_pos_pos_trivial)
    then show ?thesis using eq False by simp
  qed
qed

lemma DayFromYear_alt:
  "DayFromYear y = 365 * (y - 1970) + ((y - 1) div 4 - 492) - ((y - 1) div 100 - 19)
                    + ((y - 1) div 400 - 4)"
proof -
  have "(y - 1969) div 4 = (y - 1 - 492 * 4) div 4" by simp
  then have a: "(y - 1969) div 4 = (y - 1) div 4 - 492" by (simp only: div_shift) 
  have "(y - 1901) div 100 = (y - 1 - 19 * 100) div 100" by simp
  then have b: "(y - 1901) div 100 = (y - 1) div 100 - 19" by (simp only: div_shift)
  have "(y - 1601) div 400 = (y - 1 - 4 * 400) div 400" by simp
  then have c: "(y - 1601) div 400 = (y - 1) div 400 - 4" by (simp only: div_shift)
  show ?thesis unfolding DayFromYear_def a b c ..
qed

lemma DaysInYear_diff: "DayFromYear (y + 1) - DayFromYear y = DaysInYear y"
proof -
  have i4: "y div 4 - (y - 1) div 4 = (if y mod 4 = 0 then 1 else 0)"
    by (rule div_pred) simp
  have i100: "y div 100 - (y - 1) div 100 = (if y mod 100 = 0 then 1 else 0)"
    by (rule div_pred) simp
  have i400: "y div 400 - (y - 1) div 400 = (if y mod 400 = 0 then 1 else 0)"
    by (rule div_pred) simp
  have r1: "y mod 400 = 0 \<Longrightarrow> y mod 100 = 0"
    using mod_mod_cancel [of 100 400 y] by simp
  have r2: "y mod 100 = 0 \<Longrightarrow> y mod 4 = 0"
    using mod_mod_cancel [of 4 100 y] by simp
  have "DayFromYear (y + 1) - DayFromYear y =
        365 + (y div 4 - (y - 1) div 4) - (y div 100 - (y - 1) div 100)
            + (y div 400 - (y - 1) div 400)"
    by (simp add: DayFromYear_alt)
  also have "\<dots> = DaysInYear y"
    unfolding i4 i100 i400 DaysInYear_def using r1 r2 by auto
  finally show ?thesis .
qed

lemma yearSearch_bounds:
  "DayFromYear (yearSearch y d) \<le> d \<and> d < DayFromYear (yearSearch y d + 1)"
proof (induction y d rule: yearSearch.induct)
  case (1 y d)
  show ?case
  proof (cases "d < DayFromYear y")
    case True
    then have "yearSearch y d = yearSearch (y - 1) d" by (subst yearSearch.simps) simp
    then show ?thesis using 1(1) [OF True] by (simp only:)
  next
    case False
    show ?thesis
    proof (cases "DayFromYear (y + 1) \<le> d")
      case True
      then have "yearSearch y d = yearSearch (y + 1) d"
        using False by (subst yearSearch.simps) simp
      then show ?thesis using 1(2) [OF False True] by (simp only:)
    next
      case nb: False
      then have "yearSearch y d = y" using False by (subst yearSearch.simps) simp
      then show ?thesis using False nb by (simp only:) simp
    qed
  qed
qed

lemma YearFromTime_bounds:
  "DayFromYear (YearFromTime t) \<le> Day t \<and>
   Day t < DayFromYear (YearFromTime t) + DaysInYear (YearFromTime t)"
  using yearSearch_bounds [of "1970 + Day t div 365" "Day t"]
    DaysInYear_diff [of "YearFromTime t"]
  by (simp add: YearFromTime_def YearFromDay_def)

lemma leapDays_cases: "leapDays y = 0 \<or> leapDays y = 1"
  by (simp add: leapDays_def)

lemma DaysInYear_leapDays: "DaysInYear y = 365 + leapDays y"
  by (simp add: leapDays_def DaysInYear_def)

lemma DayWithinYear_bounds:
  "0 \<le> DayWithinYear t \<and> DayWithinYear t < 365 + leapDays (YearFromTime t)"
  using YearFromTime_bounds [of t]
  by (simp add: DayWithinYear_def DaysInYear_leapDays)

lemma monthOfDay_range: "0 \<le> monthOfDay d l \<and> monthOfDay d l \<le> 11"
  by (simp add: monthOfDay_def)

lemma MonthFromTime_range: "0 \<le> MonthFromTime t \<and> MonthFromTime t \<le> 11"
  by (simp add: MonthFromTime_def monthOfDay_range)

lemma MakeDay_roundtrip:
  "MakeDay (YearFromTime t) (MonthFromTime t) (DateFromTime t) = Day t"
proof -
  have m: "MonthFromTime t div 12 = 0" "MonthFromTime t mod 12 = MonthFromTime t"
    using MonthFromTime_range [of t] by auto
  show ?thesis
    by (simp add: MakeDay_def Let_def m DateFromTime_def DayWithinYear_def)
qed

section \<open>Lemmas about the reference day\<close>

lemma DaysInYear_ge: "365 \<le> DaysInYear y"
  by (simp add: DaysInYear_def)

lemma DayFromYear_le: "a \<le> b \<Longrightarrow> DayFromYear a \<le> DayFromYear b"
proof (induction b rule: int_ge_induct)
  case base
  show ?case by simp
next
  case (step i)
  have "DayFromYear (i + 1) = DayFromYear i + DaysInYear i"
    using DaysInYear_diff [of i] by simp
  then show ?case using step.IH DaysInYear_ge [of i] by simp
qed

lemma DayFromYear_1969: "DayFromYear 1969 = - 365"
  by (simp add: DayFromYear_def)

lemma YearFromTime_ge_1969:
  assumes "- 365 \<le> Day t"
  shows "1969 \<le> YearFromTime t"
proof (rule ccontr)
  assume "\<not> 1969 \<le> YearFromTime t"
  then have "YearFromTime t + 1 \<le> 1969" by simp
  then have "DayFromYear (YearFromTime t + 1) \<le> - 365"
    using DayFromYear_le [of "YearFromTime t + 1" 1969] DayFromYear_1969 by simp
  moreover have "Day t < DayFromYear (YearFromTime t + 1)"
    using YearFromTime_bounds [of t] DaysInYear_diff [of "YearFromTime t"] by simp
  ultimately show False using assms by simp
qed

lemma msPerDay_pos: "0 < msPerDay"
  by (simp add: msPerDay_def)

lemma Day_bounds: "Day t * msPerDay \<le> t \<and> t < Day t * msPerDay + msPerDay"
proof -
  have "t = Day t * msPerDay + t mod msPerDay"
    by (simp add: Day_def)
  moreover have "0 \<le> t mod msPerDay" "t mod msPerDay < msPerDay"
    using msPerDay_pos by simp_all
  ultimately show ?thesis by linarith
qed

lemma Day_mono: "a \<le> b \<Longrightarrow> Day a \<le> Day b"
  unfolding Day_def using msPerDay_pos by (simp add: zdiv_mono1)

lemma MakeDay_add: "MakeDay y m (d + k) = MakeDay y m d + k"
  by (simp add: MakeDay_def Let_def)

lemma newDate_endOfDay:
  assumes y: "\<not> (0 \<le> getFullYear tz now \<and> getFullYear tz now \<le> 99)"
  shows "newDate tz (getFullYear tz now) (getMonth tz now) (getDate tz now + k) 23 59 59 =
         TimeClip (UTC tz (MakeDate (Day (LocalTime tz now) + k) (MakeTime 23 59 59 0)))"
  using y MakeDay_roundtrip [of "LocalTime tz now"]
  by (auto simp: newDate_def Let_def getFullYear_def getMonth_def getDate_def MakeDay_add)

lemma sane_year:
  assumes "saneHost tz now"
  shows "1969 \<le> getFullYear tz now"
proof -
  have "- msPerDay \<le> LocalTime tz now"
    using assms by (auto simp: saneHost_def LocalTime_def abs_le_iff)
  then have "Day (- msPerDay) \<le> Day (LocalTime tz now)" by (rule Day_mono)
  moreover have "Day (- msPerDay) = - 1" by (simp add: Day_def msPerDay_def)
  ultimately show ?thesis
    using YearFromTime_ge_1969 [of "LocalTime tz now"] by (simp add: getFullYear_def)
qed

lemma endOfDay_valid:
  assumes s: "saneHost tz now" and k: "k = 0 \<or> k = 1"
  shows "\<exists>t. newDate tz (getFullYear tz now) (getMonth tz now) (getDate tz now + k) 23 59 59
            = Some t \<and> t = Day (LocalTime tz now) * msPerDay + k * msPerDay + 86399000
                  - offsetAtLocal tz (Day (LocalTime tz now) * msPerDay + k * msPerDay + 86399000)"
proof -
  let ?lt = "LocalTime tz now"
  let ?l = "Day ?lt * msPerDay + k * msPerDay + 86399000"
  have y: "\<not> (0 \<le> getFullYear tz now \<and> getFullYear tz now \<le> 99)"
    using sane_year [OF s] by simp
  have l: "MakeDate (Day ?lt + k) (MakeTime 23 59 59 0) = ?l"
    by (simp add: MakeDate_def MakeTime_def msPerHour_def msPerMinute_def msPerSecond_def
        algebra_simps)
  have lt: "- msPerDay \<le> ?lt" "?lt \<le> 8640000000000000 - 3 * msPerDay"
    using s by (auto simp: saneHost_def LocalTime_def abs_le_iff)
  have o: "\<bar>offsetAtLocal tz ?l\<bar> \<le> msPerDay" using s by (simp add: saneHost_def)
  have b: "Day ?lt * msPerDay \<le> ?lt" "?lt < Day ?lt * msPerDay + msPerDay"
    using Day_bounds [of ?lt] by simp_all
  have kk: "0 \<le> k * msPerDay" "k * msPerDay \<le> msPerDay" using k msPerDay_pos by auto
  have "\<bar>?l - offsetAtLocal tz ?l\<bar> \<le> 8640000000000000"
  proof -
    define D where "D = Day ?lt * msPerDay"
    define K where "K = k * msPerDay"
    define off where "off = offsetAtLocal tz (D + K + 86399000)"
    have "- 86400000 \<le> ?lt" "?lt \<le> 8640000000000000 - 3 * 86400000"
      "\<bar>off\<bar> \<le> 86400000" "D \<le> ?lt" "?lt < D + 86400000" "0 \<le> K" "K \<le> 86400000"
      using lt o b kk unfolding D_def K_def off_def msPerDay_def by simp_all
    then have "\<bar>D + K + 86399000 - off\<bar> \<le> 8640000000000000" by linarith
    then show ?thesis unfolding D_def K_def off_def .
  qed
  then show ?thesis
    unfolding newDate_endOfDay [OF y] l by (simp add: TimeClip_def UTC_def)
qed

section \<open>Lemmas about the results of the normalizer\<close>

lemma toISOString_Some: "\<exists>isoStr. toISOString (Some t) = Inr isoStr"
  by (simp add: toISOString_def)

lemma tryFormats_iso:
  "tryFormats tz now hours minutes c fmts = Some isoStr \<Longrightarrow>
   \<exists>t. toISOString (Some t) = Inr isoStr"
proof (induction fmts)
  case Nil
  then show ?case by simp
next
  case (Cons f fmts)
  obtain ic format where f: "f = (ic, format)" by (cases f)
  let ?rest = "tryFormats tz now hours minutes c fmts"
  show ?case
  proof (cases "strMatch ic format c")
    case None
    then have "?rest = Some isoStr" using Cons.prems by (simp add: f)
    then show ?thesis by (rule Cons.IH)
  next
    case (Some m)
    show ?thesis
    proof (cases "formatDate tz now hours minutes format m")
      case None
      then have "?rest = Some isoStr" using Cons.prems Some by (simp add: f)
      then show ?thesis by (rule Cons.IH)
    next
      case d: (Some d)
      show ?thesis
      proof (cases d)
        case None
        then have "?rest = Some isoStr" using Cons.prems Some d by (simp add: f)
        then show ?thesis by (rule Cons.IH)
      next
        case t: (Some t)
        show ?thesis
        proof (cases "toISOString (Some t)")
          case (Inl e)
          then have "?rest = Some isoStr" using Cons.prems Some d t by (simp add: f)
          then show ?thesis by (rule Cons.IH)
        next
          case (Inr x)
          then have "x = isoStr" using Cons.prems Some d t by (simp add: f)
          then show ?thesis using Inr by blast
        qed
      qed
    qed
  qed
qed

lemma nativeFallback_iso:
  "nativeFallback tz np tm c = Some isoStr \<Longrightarrow> \<exists>t. toISOString (Some t) = Inr isoStr"
  unfolding nativeFallback_def Let_def
  by (cases "np c"; cases "setHours tz (np c) 23 59 59 999")
     (auto simp: toISOString_def split: if_splits sum.splits)

lemma endOfDay_iso:
  assumes "saneHost tz now" "k = 0 \<or> k = 1"
  shows "\<exists>isoStr t. endOfDay tz now k = Inr (Some isoStr) \<and> toISOString (Some t) = Inr isoStr"
proof -
  from endOfDay_valid [OF assms] obtain t where
    t: "newDate tz (getFullYear tz now) (getMonth tz now) (getDate tz now + k) 23 59 59 = Some t"
    by blast
  obtain isoStr where i: "toISOString (Some t) = Inr isoStr"
    using toISOString_Some by blast
  have "endOfDay tz now k = Inr (Some isoStr)" by (simp add: endOfDay_def t i)
  then show ?thesis using i by blast
qed

lemma parse_notstring:
  "(\<forall>s. v = JString s \<longrightarrow> s = []) \<Longrightarrow> parseDateString tz np now v = Inr None"
  by (cases v) (simp_all add: parseDateString_def)

lemma parsePL_notstring:
  "(\<forall>s. v = JString s \<longrightarrow> s = []) \<Longrightarrow> parseDateStringPL tz np now v = Inr None"
  by (cases v) (simp_all add: parseDateStringPL_def)

lemma parse_ok:
  assumes h: "saneHost tz now \<or>
      \<not> (strIncludes (cleanDateStr s) ''today'' \<or> strIncludes (cleanDateStr s) ''tomorrow'')"
  shows "okResult (parseDateString tz np now (JString s))"
proof (cases "s = []")
  case True
  then show ?thesis by (simp add: parseDateString_def okResult_def)
next
  case False
  let ?c = "cleanDateStr s"
  show ?thesis
  proof (cases "strIncludes ?c ''today''")
    case True
    then have sane: "saneHost tz now" using h by blast
    show ?thesis using True False endOfDay_iso [OF sane, of 0]
      by (simp add: parseDateString_def okResult_def)
  next
    case nt: False
    show ?thesis
    proof (cases "strIncludes ?c ''tomorrow''")
      case True
      then have sane: "saneHost tz now" using h by blast
      show ?thesis using True False nt endOfDay_iso [OF sane, of 1]
        by (simp add: parseDateString_def okResult_def)
    next
      case nm: False
      obtain tm h mi c' where e: "extractTime ?c = (tm, h, mi, c')"
        by (cases "extractTime ?c") auto
      show ?thesis
      proof (cases "tryFormats tz now h mi c' dateFormats")
        case None
        then show ?thesis using False nt nm e nativeFallback_iso [of tz np tm c']
          by (cases "nativeFallback tz np tm c'")
             (auto simp: parseDateString_def okResult_def)
      next
        case (Some isoStr)
        then show ?thesis using False nt nm e tryFormats_iso [OF Some]
          by (auto simp: parseDateString_def okResult_def)
      qed
    qed
  qed
qed

section \<open>Lemmas about the inline copy\<close>

lemma monthNameAttempt_ok:
  "monthNameAttempt tz now h mi re g1 g2 c = Some r \<Longrightarrow> okResult (returned r)"
  unfolding monthNameAttempt_def Let_def okResult_def returned_def
  by (auto simp: toISOString_def split: option.splits if_splits)

lemma slashYearAttempt_ok:
  "slashYearAttempt tz h mi c = Some r \<Longrightarrow> okResult (returned r)"
  unfolding slashYearAttempt_def Let_def okResult_def returned_def
  by (auto simp: toISOString_def split: option.splits if_splits)

lemma nativeFallback_ok: "okResult (Inr (nativeFallback tz np tm c))"
  using nativeFallback_iso [of tz np tm c]
  by (cases "nativeFallback tz np tm c") (auto simp: okResult_def)

lemma parsePL_ok:
  assumes h: "saneHost tz now \<or>
      \<not> (strIncludes (cleanDateStr s) ''today'' \<or> strIncludes (cleanDateStr s) ''tomorrow'')"
  shows "okResult (parseDateStringPL tz np now (JString s))"
proof (cases "s = []")
  case True
  then show ?thesis by (simp add: parseDateStringPL_def okResult_def)
next
  case False
  let ?c = "cleanDateStr s"
  show ?thesis
  proof (cases "strIncludes ?c ''today''")
    case True
    then have sane: "saneHost tz now" using h by blast
    show ?thesis using True False endOfDay_iso [OF sane, of 0]
      by (simp add: parseDateStringPL_def okResult_def)
  next
    case nt: False
    show ?thesis
    proof (cases "strIncludes ?c ''tomorrow''")
      case True
      then have sane: "saneHost tz now" using h by blast
      show ?thesis using True False nt endOfDay_iso [OF sane, of 1]
        by (simp add: parseDateStringPL_def okResult_def)
    next
      case nm: False
      obtain tm h mi c1 where e: "extractTime ?c = (tm, h, mi, c1)"
        by (cases "extractTime ?c") auto
      let ?c2 = "trim (replaceAll True reZone [] c1)"
      show ?thesis
      proof (cases "monthNameAttempt tz now h mi reWeekdayMonthDay 2 3 ?c2")
        case (Some r)
        then show ?thesis using False nt nm e monthNameAttempt_ok [OF Some]
          by (simp add: parseDateStringPL_def Let_def)
      next
        case n1: None
        show ?thesis
        proof (cases "monthNameAttempt tz now h mi reMonthDay 1 2 ?c2")
          case (Some r)
          then show ?thesis using False nt nm e n1 monthNameAttempt_ok [OF Some]
            by (simp add: parseDateStringPL_def Let_def)
        next
          case n2: None
          show ?thesis
          proof (cases "slashYearAttempt tz h mi ?c2")
            case (Some r)
            then show ?thesis using False nt nm e n1 n2 slashYearAttempt_ok [OF Some]
              by (simp add: parseDateStringPL_def Let_def)
          next
            case None
            then show ?thesis using False nt nm e n1 n2 nativeFallback_ok [of tz np tm ?c2]
              by (simp add: parseDateStringPL_def Let_def)
          qed
        qed
      qed
    qed
  qed
qed

lemma sane_utc: "saneHost utcZone june1st2025"
  by (simp add: saneHost_def utcZone_def june1st2025_def msPerDay_def)

section \<open>Lemmas about the cleaned string\<close>

























section \<open>Claims about the stored collection\<close>

lemma wf_empty: "wellFormed None"
  by (simp add: wellFormed_def getStorageData_def DEFAULT_STORAGE_def)

subsection \<open>C1: sticky flags under reconciliation\<close>

text \<open>
  Claim C1 as stated fails on a batch in which two records share an id: the map keeps one
  value per id, so the earlier record, although its id matches nothing stored, is not in
  the result. (The PrairieLearn scraper derives the id from the link, and the link falls
  back to the page address, so two cards without a link of their own get the same id.)
\<close>

theorem reconcile_duplicate_ids:
  "item_id quiz1 = item_id quiz2 \<and> reconcile [] [quiz1, quiz2] = [quiz2]
   \<and> quiz1 \<notin> set (reconcile [] [quiz1, quiz2])"
  by code_simp

text \<open>
  Claim C1, amended: for an existing collection with pairwise distinct ids and every
  incoming batch (ids may repeat in it), the result has one record per id, and for every
  incoming record \<open>n\<close> the merged record \<open>r\<close> with the id of \<open>n\<close> is such that: if the
  existing record with that id has \<open>done = true\<close> (\<open>notificationSent = true\<close>), so has
  \<open>r\<close>; \<open>title\<close>, \<open>dueDate\<close>, \<open>course\<close>, \<open>link\<close>, \<open>source\<close> (and \<open>pastDue\<close>)
  of \<open>r\<close> are those of the last incoming record with that id. When \<open>n\<close> is that last
  record and no other incoming record with its id carries a true flag (in particular when
  no other incoming record has its id), a flag that the existing record has not set keeps
  the incoming value, and if no existing record has that id, \<open>r\<close> is \<open>n\<close> itself.
\<close>

theorem reconcile_sticky:
  assumes dE: "distinct (map item_id existing)" and n: "n \<in> set newItems"
  shows "distinct (map item_id (reconcile existing newItems)) \<and>
         (\<exists>r \<in> set (reconcile existing newItems).
           item_id r = item_id n \<and>
           (\<forall>e \<in> set existing. item_id e = item_id n \<longrightarrow>
              (item_done e = Some True \<longrightarrow> item_done r = Some True) \<and>
              (notificationSent e = Some True \<longrightarrow> notificationSent r = Some True)) \<and>
           title r = title (lastWithId (item_id n) newItems) \<and>
           dueDate r = dueDate (lastWithId (item_id n) newItems) \<and>
           course r = course (lastWithId (item_id n) newItems) \<and>
           link r = link (lastWithId (item_id n) newItems) \<and>
           source r = source (lastWithId (item_id n) newItems) \<and>
           pastDue r = pastDue (lastWithId (item_id n) newItems) \<and>
           (n = lastWithId (item_id n) newItems \<and>
            (\<forall>a \<in> set newItems. item_id a = item_id n \<and> a \<noteq> n \<longrightarrow>
               item_done a \<noteq> Some True \<and> notificationSent a \<noteq> Some True) \<longrightarrow>
              (\<forall>e \<in> set existing. item_id e = item_id n \<longrightarrow>
                 (item_done e \<noteq> Some True \<longrightarrow> item_done r = item_done n) \<and>
                 (notificationSent e \<noteq> Some True \<longrightarrow>
                    notificationSent r = notificationSent n)) \<and>
              ((\<forall>e \<in> set existing. item_id e \<noteq> item_id n) \<longrightarrow> r = n)))"
proof -
  let ?x = "item_id n"
  let ?l = "lastWithId ?x newItems"
  let ?m0 = "map (\<lambda>it. (item_id it, it)) existing"
  let ?m1 = "foldl addNewItem ?m0 newItems"
  have ne: "filter (\<lambda>a. item_id a = ?x) newItems \<noteq> []"
    using n by (auto simp: filter_empty_conv)
  from last_fold [OF ne, of ?m0] obtain e0 where
    r: "map_of ?m1 ?x = Some (preserveFlags e0 ?l)" by blast
  let ?r = "preserveFlags e0 ?l"
  have k: "keyed ?m1"
    using keyed_fold_add [OF keyed_fold_set [OF keyed_Nil, of existing], of newItems]
    by (simp add: itemMap0_distinct [OF dE])
  have "?r \<in> set (map_values ?m1)" by (rule keyed_values [OF k r])
  then have mem: "?r \<in> set (reconcile existing newItems)"
    by (simp add: reconcile_def Let_def itemMap0_distinct [OF dE])
  have id: "item_id ?r = ?x" using lastWithId_in [OF n] by simp
  have sticky: "\<forall>e \<in> set existing. item_id e = ?x \<longrightarrow>
              (item_done e = Some True \<longrightarrow> item_done ?r = Some True) \<and>
              (notificationSent e = Some True \<longrightarrow> notificationSent ?r = Some True)"
  proof (intro ballI impI conjI)
    fix e assume e: "e \<in> set existing" "item_id e = ?x"
    have m0: "map_of ?m0 ?x = Some e" using map_of_idmap [OF dE e(1)] e(2) by simp
    {
      assume "item_done e = Some True"
      then have "\<exists>v. map_of ?m0 ?x = Some v \<and> (True \<longrightarrow> item_done v = Some True) \<and>
        (False \<longrightarrow> notificationSent v = Some True)" using m0 by simp
      from sticky_fold [OF this, of newItems] show "item_done ?r = Some True"
        using r by simp
    }
    {
      assume "notificationSent e = Some True"
      then have "\<exists>v. map_of ?m0 ?x = Some v \<and> (False \<longrightarrow> item_done v = Some True) \<and>
        (True \<longrightarrow> notificationSent v = Some True)" using m0 by simp
      from sticky_fold [OF this, of newItems] show "notificationSent ?r = Some True"
        using r by simp
    }
  qed
  have fields: "title ?r = title ?l \<and> dueDate ?r = dueDate ?l \<and> course ?r = course ?l \<and>
      link ?r = link ?l \<and> source ?r = source ?l \<and> pastDue ?r = pastDue ?l"
    by (rule preserveFlags_scraped)
  have exact: "n = ?l \<and>
            (\<forall>a \<in> set newItems. item_id a = ?x \<and> a \<noteq> n \<longrightarrow>
               item_done a \<noteq> Some True \<and> notificationSent a \<noteq> Some True) \<longrightarrow>
              (\<forall>e \<in> set existing. item_id e = ?x \<longrightarrow>
                 (item_done e \<noteq> Some True \<longrightarrow> item_done ?r = item_done n) \<and>
                 (notificationSent e \<noteq> Some True \<longrightarrow>
                    notificationSent ?r = notificationSent n)) \<and>
              ((\<forall>e \<in> set existing. item_id e \<noteq> ?x) \<longrightarrow> ?r = n)"
  proof (intro impI)
    assume a: "n = ?l \<and>
            (\<forall>a \<in> set newItems. item_id a = ?x \<and> a \<noteq> n \<longrightarrow>
               item_done a \<noteq> Some True \<and> notificationSent a \<noteq> Some True)"
    then have l: "n = ?l" and h: "\<forall>a \<in> set newItems. item_id a = ?x \<and> a \<noteq> n \<longrightarrow>
               item_done a \<noteq> Some True \<and> notificationSent a \<noteq> Some True"
      by blast+
    have "map_of ?m1 ?x = Some (preserveFlags (map_of ?m0 ?x) n)"
      by (rule exact_fold [OF n l h])
    then have req: "?r = preserveFlags (map_of ?m0 ?x) n" using r by simp
    have matched: "\<forall>e \<in> set existing. item_id e = ?x \<longrightarrow>
                 (item_done e \<noteq> Some True \<longrightarrow> item_done ?r = item_done n) \<and>
                 (notificationSent e \<noteq> Some True \<longrightarrow>
                    notificationSent ?r = notificationSent n)"
    proof (intro ballI impI)
      fix e assume e: "e \<in> set existing" "item_id e = ?x"
      have m0: "map_of ?m0 ?x = Some e" using map_of_idmap [OF dE e(1)] e(2) by simp
      show "(item_done e \<noteq> Some True \<longrightarrow> item_done ?r = item_done n) \<and>
                 (notificationSent e \<noteq> Some True \<longrightarrow>
                    notificationSent ?r = notificationSent n)"
        unfolding req m0 by (simp add: preserveFlags_def Let_def truthy_def)
    qed
    have unmatched: "(\<forall>e \<in> set existing. item_id e \<noteq> ?x) \<longrightarrow> ?r = n"
    proof
      assume "\<forall>e \<in> set existing. item_id e \<noteq> ?x"
      then have "?x \<notin> fst ` set ?m0" by auto
      then have "map_of ?m0 ?x = None" by (simp add: map_of_eq_None_iff)
      then show "?r = n" unfolding req by (simp add: preserveFlags_def)
    qed
    from matched unmatched show "(\<forall>e \<in> set existing. item_id e = ?x \<longrightarrow>
                 (item_done e \<noteq> Some True \<longrightarrow> item_done ?r = item_done n) \<and>
                 (notificationSent e \<noteq> Some True \<longrightarrow>
                    notificationSent ?r = notificationSent n)) \<and>
              ((\<forall>e \<in> set existing. item_id e \<noteq> ?x) \<longrightarrow> ?r = n)" by blast
  qed
  have "\<exists>r \<in> set (reconcile existing newItems).
           item_id r = item_id n \<and>
           (\<forall>e \<in> set existing. item_id e = item_id n \<longrightarrow>
              (item_done e = Some True \<longrightarrow> item_done r = Some True) \<and>
              (notificationSent e = Some True \<longrightarrow> notificationSent r = Some True)) \<and>
           title r = title ?l \<and> dueDate r = dueDate ?l \<and> course r = course ?l \<and>
           link r = link ?l \<and> source r = source ?l \<and> pastDue r = pastDue ?l \<and>
           (n = ?l \<and>
            (\<forall>a \<in> set newItems. item_id a = item_id n \<and> a \<noteq> n \<longrightarrow>
               item_done a \<noteq> Some True \<and> notificationSent a \<noteq> Some True) \<longrightarrow>
              (\<forall>e \<in> set existing. item_id e = item_id n \<longrightarrow>
                 (item_done e \<noteq> Some True \<longrightarrow> item_done r = item_done n) \<and>
                 (notificationSent e \<noteq> Some True \<longrightarrow>
                    notificationSent r = notificationSent n)) \<and>
              ((\<forall>e \<in> set existing. item_id e \<noteq> item_id n) \<longrightarrow> r = n))"
    by (rule bexI [OF _ mem]) (intro conjI id sticky fields [THEN conjunct1]
        fields [THEN conjunct2, THEN conjunct1]
        fields [THEN conjunct2, THEN conjunct2, THEN conjunct1]
        fields [THEN conjunct2, THEN conjunct2, THEN conjunct2, THEN conjunct1]
        fields [THEN conjunct2, THEN conjunct2, THEN conjunct2, THEN conjunct2, THEN conjunct1]
        fields [THEN conjunct2, THEN conjunct2, THEN conjunct2, THEN conjunct2, THEN conjunct2]
        exact)
  then show ?thesis using distinct_reconcile [of existing newItems] by blast
qed

theorem reconcile_sticky_witness:
  "distinct (map item_id [quiz1\<lparr>item_done := Some True\<rparr>]) \<and> quiz2 \<in> set [quiz1, quiz2]
   \<and> item_id quiz1 = item_id quiz2
   \<and> quiz2 = lastWithId (item_id quiz2) [quiz1, quiz2]
   \<and> (\<exists>r \<in> set (reconcile [quiz1\<lparr>item_done := Some True\<rparr>] [quiz1, quiz2]).
          item_id r = item_id quiz2 \<and> item_done r = Some True \<and> title r = ''Quiz 2'' \<and>
          notificationSent r = notificationSent quiz2)
   \<and> quiz2 \<in> set (reconcile [hw1] [quiz1, quiz2])"
proof -
  let ?e = "quiz1\<lparr>item_done := Some True\<rparr>"
  have d: "distinct (map item_id [?e])" by simp
  have d': "distinct (map item_id [hw1])" by simp
  have m: "quiz2 \<in> set [quiz1, quiz2]" by simp
  have i: "item_id quiz1 = item_id quiz2" by code_simp
  have l: "quiz2 = lastWithId (item_id quiz2) [quiz1, quiz2]" by code_simp
  have f: "item_done ?e = Some True" "notificationSent ?e \<noteq> Some True"
    "item_done quiz1 \<noteq> Some True" "notificationSent quiz1 \<noteq> Some True"
    "title quiz2 = ''Quiz 2''" "item_id ?e = item_id quiz2" "item_id hw1 \<noteq> item_id quiz2"
    by code_simp+
  have h: "\<forall>a \<in> set [quiz1, quiz2]. item_id a = item_id quiz2 \<and> a \<noteq> quiz2 \<longrightarrow>
             item_done a \<noteq> Some True \<and> notificationSent a \<noteq> Some True"
    using f by simp
  from reconcile_sticky [OF d m, THEN conjunct2] obtain r where
    r: "r \<in> set (reconcile [?e] [quiz1, quiz2])" "item_id r = item_id quiz2"
      "\<forall>e \<in> set [?e]. item_id e = item_id quiz2 \<longrightarrow>
              (item_done e = Some True \<longrightarrow> item_done r = Some True) \<and>
              (notificationSent e = Some True \<longrightarrow> notificationSent r = Some True)"
      "title r = title (lastWithId (item_id quiz2) [quiz1, quiz2])"
      "quiz2 = lastWithId (item_id quiz2) [quiz1, quiz2] \<and>
            (\<forall>a \<in> set [quiz1, quiz2]. item_id a = item_id quiz2 \<and> a \<noteq> quiz2 \<longrightarrow>
               item_done a \<noteq> Some True \<and> notificationSent a \<noteq> Some True) \<longrightarrow>
              (\<forall>e \<in> set [?e]. item_id e = item_id quiz2 \<longrightarrow>
                 (item_done e \<noteq> Some True \<longrightarrow> item_done r = item_done quiz2) \<and>
                 (notificationSent e \<noteq> Some True \<longrightarrow>
                    notificationSent r = notificationSent quiz2)) \<and>
              ((\<forall>e \<in> set [?e]. item_id e \<noteq> item_id quiz2) \<longrightarrow> r = quiz2)"
    by blast
  have 1: "item_done r = Some True" using r(3) f(1,6) by simp
  have 2: "title r = ''Quiz 2''" using r(4) l f(5) by simp
  have 3: "notificationSent r = notificationSent quiz2" using r(5) l h f(2,6) by simp
  from reconcile_sticky [OF d' m, THEN conjunct2] obtain r' where
    r': "r' \<in> set (reconcile [hw1] [quiz1, quiz2])"
      "quiz2 = lastWithId (item_id quiz2) [quiz1, quiz2] \<and>
            (\<forall>a \<in> set [quiz1, quiz2]. item_id a = item_id quiz2 \<and> a \<noteq> quiz2 \<longrightarrow>
               item_done a \<noteq> Some True \<and> notificationSent a \<noteq> Some True) \<longrightarrow>
              (\<forall>e \<in> set [hw1]. item_id e = item_id quiz2 \<longrightarrow>
                 (item_done e \<noteq> Some True \<longrightarrow> item_done r' = item_done quiz2) \<and>
                 (notificationSent e \<noteq> Some True \<longrightarrow>
                    notificationSent r' = notificationSent quiz2)) \<and>
              ((\<forall>e \<in> set [hw1]. item_id e \<noteq> item_id quiz2) \<longrightarrow> r' = quiz2)"
    by blast
  have "r' = quiz2" using r'(2) l h f(7) by simp
  then have 4: "quiz2 \<in> set (reconcile [hw1] [quiz1, quiz2])" using r'(1) by simp
  show ?thesis using d m i l r(1,2) 1 2 3 4 by blast
qed

subsection \<open>C2: idempotent reconciliation\<close>

text \<open>
  Claim C2: for a well-formed collection \<open>X\<close> (pairwise distinct ids), reconciling \<open>X\<close>
  against the batch \<open>X\<close> yields \<open>X\<close> sorted by due date, with the same records and every
  field unchanged; a collection that is already sorted comes back as it is. The handler
  writes exactly that collection and leaves the settings alone.
\<close>

theorem reconcile_idempotent:
  assumes "distinct (map item_id X)"
  shows "reconcile X X = sort_key dueDate X \<and> mset (reconcile X X) = mset X
         \<and> (sorted (map dueDate X) \<longrightarrow> reconcile X X = X)
         \<and> fst (handleScrapeResult now X (Some \<lparr> items = X, settings = s \<rparr>)) =
             Some \<lparr> items = sort_key dueDate X, settings = s \<rparr>"
  using reconcile_self [OF assms]
  by (simp add: sort_key_id_if_sorted handleScrapeResult_def Let_def getStorageData_def)

theorem reconcile_idempotent_witness:
  "distinct (map item_id [quiz1, hw1]) \<and> reconcile [quiz1, hw1] [quiz1, hw1] = [hw1, quiz1]
   \<and> mset (reconcile [quiz1, hw1] [quiz1, hw1]) = mset [quiz1, hw1]"
proof -
  have d: "distinct (map item_id [quiz1, hw1])" by code_simp
  have s: "sort_key dueDate [quiz1, hw1] = [hw1, quiz1]" by code_simp
  show ?thesis using reconcile_idempotent [OF d] d s by simp
qed

subsection \<open>C3: a notification is not repeated\<close>

text \<open>
  Claim C3: in a well-formed store, once the record with id \<open>x\<close> has
  \<open>notificationSent = true\<close>, the flag stays true across every later run of handlers
  (scheduler ticks, reconciliations of any scraped batch, done toggles, settings updates,
  and retention sweeps that retain the record; the run has no clear-all), and no scheduler
  tick of that run calls the notification delivery for \<open>x\<close>, whatever the clock, the
  due date and the window are. Only the sweeps are conditioned: a scheduler tick, a
  reconciliation, a toggle and a settings update keep the record by themselves.
\<close>

theorem notification_no_repeat:
  assumes "wellFormed st" and "notified x st" and "retained x es st"
  shows "notified x (fst (run es st)) \<and> x \<notin> fst ` set (snd (run es st))"
  using assms
proof (induction es arbitrary: st)
  case Nil
  then show ?case by simp
next
  case (Cons e es)
  let ?st1 = "fst (step e st)"
  have wf1: "wellFormed ?st1" by (rule wf_step [OF Cons.prems(1)])
  have n1: "notified x ?st1"
    using Cons.prems by (intro notified_step) simp_all
  have k1: "retained x es ?st1" using Cons.prems(3) by simp
  have c1: "x \<notin> fst ` set (snd (step e st))"
    by (rule notified_no_call [OF Cons.prems(1,2)])
  show ?case using Cons.IH [OF wf1 n1 k1] c1 by (auto simp: Let_def)
qed

theorem notification_no_repeat_witness:
  "wellFormed notifiedStore \<and> notified (item_id hw1) notifiedStore
   \<and> retained (item_id hw1) sampleTrace notifiedStore
   \<and> notified (item_id hw1) (fst (run sampleTrace notifiedStore))
   \<and> item_id hw1 \<notin> fst ` set (snd (run sampleTrace notifiedStore))"
proof -
  have 1: "wellFormed notifiedStore" by code_simp
  have 2: "notified (item_id hw1) notifiedStore" by code_simp
  have 3: "retained (item_id hw1) sampleTrace notifiedStore" by code_simp
  show ?thesis using 1 2 3 notification_no_repeat [OF 1 2 3] by simp
qed

subsection \<open>C4: a failed delivery\<close>

text \<open>
  Claim C4 as stated fails: when \<open>notifications.create\<close> rejects, the assignment that
  marks the record is skipped, so the flag of the failed record is not set, and the next
  tick that finds the record in the window calls the delivery again.
\<close>

theorem tick_failure_flag_counterexample:
  "checkAndSendNotifications rejectAll 0 (storeOf [hw1]) =
     (storeOf [hw1], [(item_id hw1, False)])
   \<and> notificationSent hw1 \<noteq> Some True
   \<and> snd (checkAndSendNotifications acceptAll 1800000
            (fst (checkAndSendNotifications rejectAll 0 (storeOf [hw1])))) =
       [(item_id hw1, True)]"
  by code_simp

text \<open>
  Claim C4, amended: on a scheduler tick over a well-formed store with notifications
  enabled, a failed delivery is caught locally. Every selected record gets its delivery
  call, in order, whatever happened to the records before it; exactly the selected records
  whose delivery succeeded are marked \<open>notificationSent = true\<close>, and a record whose
  delivery failed is stored unchanged, so a later tick that still has it in the window
  selects it again.
\<close>

theorem tick_failure_isolated:
  assumes wf: "wellFormed st" and en: "notificationsEnabled (settings (getStorageData st))"
  shows "snd (checkAndSendNotifications creates now st) =
           map (\<lambda>s. (item_id s, creates (item_id s))) (itemsToNotify now (getStorageData st))
         \<and> items (getStorageData (fst (checkAndSendNotifications creates now st))) =
           map (\<lambda>it. if it \<in> set (itemsToNotify now (getStorageData st)) \<and> creates (item_id it)
                     then it\<lparr>notificationSent := Some True\<rparr> else it)
             (items (getStorageData st))
         \<and> (\<forall>it \<in> set (itemsToNotify now (getStorageData st)). \<not> creates (item_id it) \<longrightarrow>
               (\<forall>now'. now' \<le> dueDate it \<and>
                   dueDate it \<le> now' + notificationHours (settings (getStorageData st)) * 60 * 60 * 1000
                 \<longrightarrow> it \<in> set (itemsToNotify now'
                       (getStorageData (fst (checkAndSendNotifications creates now st))))))"
proof -
  let ?d = "getStorageData st"
  let ?sel = "itemsToNotify now ?d"
  let ?st' = "fst (checkAndSendNotifications creates now st)"
  let ?f = "\<lambda>it. if it \<in> set ?sel \<and> creates (item_id it)
                     then it\<lparr>notificationSent := Some True\<rparr> else it"
  have d: "distinct (map item_id (items ?d))" using wf by (simp add: wellFormed_def)
  have sub: "set ?sel \<subseteq> set (items ?d)" by (auto simp: itemsToNotify_def Let_def)
  have calls: "snd (checkAndSendNotifications creates now st) =
           map (\<lambda>s. (item_id s, creates (item_id s))) ?sel"
    by (rule tick_wf(2) [OF wf en])
  have its: "items (getStorageData ?st') = map ?f (items ?d)"
    using tick_wf(1) [OF wf en, of creates now] flagIds_sel [OF d sub, of creates]
    by (simp only:)
  have retry: "\<forall>it \<in> set ?sel. \<not> creates (item_id it) \<longrightarrow>
               (\<forall>now'. now' \<le> dueDate it \<and>
                   dueDate it \<le> now' + notificationHours (settings ?d) * 60 * 60 * 1000
                 \<longrightarrow> it \<in> set (itemsToNotify now' (getStorageData ?st')))"
  proof (intro ballI impI allI)
    fix it now'
    assume it: "it \<in> set ?sel" and fail: "\<not> creates (item_id it)"
      and win: "now' \<le> dueDate it \<and>
                   dueDate it \<le> now' + notificationHours (settings ?d) * 60 * 60 * 1000"
    have fit: "?f it = it" using fail by simp
    have "it \<in> set (items ?d)" using it sub by auto
    then have "?f it \<in> set (map ?f (items ?d))" by (simp only: set_map) (rule imageI)
    then have mem: "it \<in> set (items (getStorageData ?st'))"
      using fit its by (simp only:)
    have nt: "\<not> truthy (notificationSent it)"
      using it by (simp add: itemsToNotify_def Let_def)
    have se: "settings (getStorageData ?st') = settings ?d"
      by (rule tick_wf(3) [OF wf en])
    show "it \<in> set (itemsToNotify now' (getStorageData ?st'))"
      using win mem nt by (simp add: itemsToNotify_def Let_def se)
  qed
  show ?thesis by (intro conjI) (rule calls, rule its, rule retry)
qed

theorem tick_failure_isolated_witness:
  "wellFormed (storeOf [hw1, quiz1\<lparr>dueDate := 7200000\<rparr>])
   \<and> notificationsEnabled (settings (getStorageData (storeOf [hw1, quiz1\<lparr>dueDate := 7200000\<rparr>])))
   \<and> snd (checkAndSendNotifications allButHw1 0
             (storeOf [hw1, quiz1\<lparr>dueDate := 7200000\<rparr>])) =
       [(item_id hw1, False), (item_id quiz1, True)]
   \<and> items (getStorageData (fst (checkAndSendNotifications allButHw1 0
             (storeOf [hw1, quiz1\<lparr>dueDate := 7200000\<rparr>])))) =
       [hw1, quiz1\<lparr>dueDate := 7200000, notificationSent := Some True\<rparr>]"
proof -
  let ?st = "storeOf [hw1, quiz1\<lparr>dueDate := 7200000\<rparr>]"
  have wf: "wellFormed ?st" by code_simp
  have en: "notificationsEnabled (settings (getStorageData ?st))" by code_simp
  have sel: "itemsToNotify 0 (getStorageData ?st) = [hw1, quiz1\<lparr>dueDate := 7200000\<rparr>]"
    by code_simp
  have c: "\<not> allButHw1 (item_id hw1)" "allButHw1 (item_id quiz1)" by code_simp+
  have ne': "hw1 \<noteq> quiz1\<lparr>dueDate := 7200000\<rparr>" by code_simp
  have its: "items (getStorageData ?st) = [hw1, quiz1\<lparr>dueDate := 7200000\<rparr>]" by code_simp
  show ?thesis
    using tick_failure_isolated [OF wf en, of allButHw1 0] wf en c ne'
    unfolding sel its by simp
qed

subsection \<open>C5: the badge count\<close>

text \<open>
  Claim C5 as stated fails at the upper end of the interval: the filter compares with
  \<open>\<le>\<close>, so a record due in exactly 24 hours is counted, while the half-open interval
  of the claim leaves it out.
\<close>

theorem badge_closed_interval_counterexample:
  "updateBadge 1000 (storeOf [dueIn (1000 + 24 * 60 * 60 * 1000)]) = 1 \<and>
   length (filter (\<lambda>it. 1000 \<le> dueDate it \<and> dueDate it < 1000 + 24 * 60 * 60 * 1000)
             (items (getStorageData (storeOf [dueIn (1000 + 24 * 60 * 60 * 1000)])))) = 0"
  by (simp add: updateBadge_def upcomingItems_def getStorageData_def storeOf_def dueIn_def)

text \<open>
  Claim C5, amended: the badge count is the number of records whose due date lies in the
  closed interval from \<open>now\<close> to \<open>now\<close> + 24 h. A record due in 24 h and 1 s is not
  counted, a record due in 23 h 59 min 59 s is, and a record due before \<open>now\<close> is not.
\<close>

theorem badge_count:
  "updateBadge now st =
     length (filter (\<lambda>it. now \<le> dueDate it \<and> dueDate it \<le> now + 24 * 60 * 60 * 1000)
               (items (getStorageData st)))
   \<and> updateBadge now (storeOf [dueIn (now + 24 * 60 * 60 * 1000 + 1000)]) = 0
   \<and> updateBadge now (storeOf [dueIn (now + 23 * 60 * 60 * 1000 + 59 * 60 * 1000 + 59 * 1000)]) = 1
   \<and> updateBadge now (storeOf [dueIn (now - 1)]) = 0"
  by (simp add: updateBadge_def upcomingItems_def getStorageData_def storeOf_def dueIn_def)

subsection \<open>C8: the retention sweep\<close>

text \<open>
  Claim C8: the retention sweep removes exactly the records whose due date precedes
  \<open>now\<close> - 30 days, whatever their \<open>done\<close> and \<open>notificationSent\<close> values; the
  records it keeps, and the settings, are unchanged. A record due 31 days ago is removed,
  one due 29 days ago is kept.
\<close>

theorem cleanup_retention:
  "items (getStorageData (fst (cleanupOldItems now st))) =
     filter (\<lambda>it. \<not> dueDate it < now - 30 * msPerDay) (items (getStorageData st))
   \<and> settings (getStorageData (fst (cleanupOldItems now st))) = settings (getStorageData st)
   \<and> items (getStorageData (fst (cleanupOldItems now
          (storeOf [quiz1\<lparr>dueDate := now - 31 * msPerDay, item_done := d, notificationSent := s\<rparr>,
                    quiz2\<lparr>dueDate := now - 29 * msPerDay, item_done := d', notificationSent := s'\<rparr>])))) =
       [quiz2\<lparr>dueDate := now - 29 * msPerDay, item_done := d', notificationSent := s'\<rparr>]"
proof -
  let ?xs = "items (getStorageData st)"
  let ?p = "\<lambda>it. dueDate it \<ge> now - (30 * 24 * 60 * 60 * 1000)"
  have same: "length (filter ?p ?xs) = length ?xs \<Longrightarrow> filter ?p ?xs = ?xs"
    by (metis filter_True length_filter_less not_less_iff_gr_or_eq)
  have 1: "items (getStorageData (fst (cleanupOldItems now st))) = filter ?p ?xs"
    using same by (auto simp: cleanupOldItems_def Let_def getStorageData_def split: option.splits)
  have 2: "settings (getStorageData (fst (cleanupOldItems now st))) = settings (getStorageData st)"
    by (auto simp: cleanupOldItems_def Let_def getStorageData_def split: option.splits)
  show ?thesis
    apply (intro conjI)
    subgoal using 1 by (simp add: msPerDay_def not_less)
    subgoal by (rule 2)
    subgoal by (simp add: cleanupOldItems_def Let_def getStorageData_def storeOf_def msPerDay_def)
    done
qed

subsection \<open>C9: toggling done\<close>

text \<open>
  Claim C9: toggle-done is a point update. The collection keeps its length and order;
  a record with the given id changes in its \<open>done\<close> field only, which becomes the given
  value; every other record and the settings are unchanged.
\<close>

theorem toggle_point_update:
  "length (items (getStorageData (toggleItemDone mid v st))) = length (items (getStorageData st))
   \<and> (\<forall>i < length (items (getStorageData st)).
         items (getStorageData (toggleItemDone mid v st)) ! i =
           (if item_id (items (getStorageData st) ! i) = mid
            then (items (getStorageData st) ! i)\<lparr>item_done := Some v\<rparr>
            else items (getStorageData st) ! i))
   \<and> settings (getStorageData (toggleItemDone mid v st)) = settings (getStorageData st)"
  by (simp add: toggleItemDone_def Let_def getStorageData_def)

theorem toggle_point_update_witness:
  "(0::nat) < length (items (getStorageData (storeOf [hw1, quiz1])))
   \<and> items (getStorageData (toggleItemDone (item_id hw1) True (storeOf [hw1, quiz1]))) ! 0 =
       hw1\<lparr>item_done := Some True\<rparr>
   \<and> items (getStorageData (toggleItemDone (item_id hw1) True (storeOf [hw1, quiz1]))) ! 1 =
       quiz1"
proof -
  have its: "items (getStorageData (storeOf [hw1, quiz1])) = [hw1, quiz1]" by code_simp
  have ne: "item_id quiz1 \<noteq> item_id hw1" by code_simp
  show ?thesis
    using toggle_point_update [of "item_id hw1" True "storeOf [hw1, quiz1]"] ne
    unfolding its by (auto simp: nth_Cons')
qed

section \<open>Claims about the date normalizer\<close>

subsection \<open>C6: relative days\<close>




subsection \<open>C10: the normalizer is total\<close>

text \<open>
  Claim C10: for both copies of \<open>parseDateString\<close> (the library and the PrairieLearn
  scraper), whatever the host's parser of free-form dates does: an argument that is
  \<open>null\<close>, \<open>undefined\<close>, the empty string or not a string gives \<open>null\<close>; every
  argument gives \<open>null\<close> or a string produced by \<open>toISOString\<close>, and no exception
  leaves the function. For an argument that takes the relative-day branch the host is
  assumed sane (a clock after the epoch and four days before the end of the range of
  \<open>Date\<close>, zone offsets of at most a day); for every other argument nothing is assumed.
\<close>

theorem parseDateString_total:
  assumes "saneHost tz now \<or> \<not> relativeDay v"
  shows "((\<forall>s. v = JString s \<longrightarrow> s = []) \<longrightarrow>
            parseDateString tz np now v = Inr None \<and> parseDateStringPL tz np now v = Inr None)
         \<and> okResult (parseDateString tz np now v)
         \<and> okResult (parseDateStringPL tz np now v)"
proof (cases "\<forall>s. v = JString s \<longrightarrow> s = []")
  case True
  then show ?thesis
    using parse_notstring [of v tz np now] parsePL_notstring [of v tz np now]
    by (simp add: okResult_def)
next
  case False
  then obtain s where s: "v = JString s" "s \<noteq> []" by blast
  have h: "saneHost tz now \<or>
      \<not> (strIncludes (cleanDateStr s) ''today'' \<or> strIncludes (cleanDateStr s) ''tomorrow'')"
    using assms s by simp
  show ?thesis using False s parse_ok [OF h, of np] parsePL_ok [OF h, of np]
    by simp
qed

theorem parseDateString_total_witness:
  "saneHost utcZone june1st2025
   \<and> \<not> relativeDay (JString ''Dec 25'')
   \<and> parseDateString utcZone noNative june1st2025 JNull = Inr None
   \<and> parseDateStringPL utcZone noNative june1st2025 (JString []) = Inr None
   \<and> okResult (parseDateString utcZone noNative june1st2025 (JString ''tomorrow''))
   \<and> okResult (parseDateString utcZone noNative (- 1) (JString ''Dec 25''))
   \<and> okResult (parseDateStringPL utcZone noNative june1st2025 (JString ''garbage-not-a-date''))"
proof -
  have r: "\<not> relativeDay (JString ''Dec 25'')" by code_simp
  show ?thesis
    using parseDateString_total [of utcZone june1st2025 JNull noNative]
      parseDateString_total [of utcZone june1st2025 "JString []" noNative]
      parseDateString_total [of utcZone june1st2025 "JString ''tomorrow''" noNative]
      parseDateString_total [of utcZone "- 1" "JString ''Dec 25''" noNative]
      parseDateString_total [of utcZone june1st2025 "JString ''garbage-not-a-date''" noNative]
      sane_utc r
    by simp
qed

end
